theory Spec2Isabelle
  imports Complex_Main
begin

section \<open>Data model of entry.cc\<close>

text \<open>
  The file entry.cc implements the members of \<open>entry_base_t\<close>, \<open>entry_t\<close> and
  \<open>auto_entry_t\<close>.  An entry owns a \<open>std::list\<close> of pointers to postings
  (\<open>xact_t *\<close>); the postings themselves live on the C++ heap and are mutated through
  these pointers.  The embedding keeps this shape: a pointer is an address, the heap is
  a store from addresses to postings, and an entry holds a list of addresses.
\<close>

subsection \<open>Postings\<close>

text \<open>
  Accounts are only read here (\<open>account->fullname()\<close>) and passed on, so an account
  is represented by the value of its full name.
\<close>

datatype account_t = Account (fullname: string)

datatype state_t = UNCLEARED | CLEARED | PENDING

text \<open>
  The flag bits of a posting.  entry.cc names \<open>XACT_TEMP\<close>, \<open>XACT_IN_CACHE\<close>,
  \<open>XACT_GENERATED\<close>, \<open>XACT_CALCULATED\<close> and \<open>XACT_AUTO\<close>; \<open>XACT_VIRTUAL\<close>
  stands for the facet of the postings that need not balance.  A flag word is the set
  of its bits, so \<open>flags | XACT_AUTO\<close> is \<open>insert XACT_AUTO flags\<close>.
\<close>

datatype xact_flag =
  XACT_VIRTUAL | XACT_AUTO | XACT_IN_CACHE | XACT_CALCULATED | XACT_GENERATED | XACT_TEMP

text \<open>
  A posting, over the amount type \<open>'a\<close> of the arithmetic library.  \<open>cost\<close> is
  \<open>optional<amount_t>\<close>; the dates are \<open>optional<date_t>\<close>.  (The back-reference
  \<open>xact->entry\<close>, written by \<open>entry_t::add_xact\<close>, is read by none of the functions
  modelled here and is left out.)
\<close>

record 'a xact_t =
  account :: account_t
  amount :: 'a
  cost :: "'a option"
  state :: state_t
  flags :: "xact_flag set"
  date :: "nat option"
  date_eff :: "nat option"
  xact_note :: "string option"
  beg_pos :: nat
  beg_line :: nat
  end_pos :: nat
  end_line :: nat

subsection \<open>The heap of postings\<close>

text \<open>
  \<open>heap\<close> maps an address to the posting stored there; \<open>brk\<close> is the first address
  that \<open>new\<close> has not handed out yet.  \<open>new xact_t(...)\<close> stores the posting at
  \<open>brk\<close> and returns that address.
\<close>

type_synonym xact_ptr = nat

record 'a store =
  heap :: "xact_ptr \<Rightarrow> 'a xact_t"
  brk :: xact_ptr

definition new_ptr :: "'a xact_t \<Rightarrow> 'a store \<Rightarrow> xact_ptr \<times> 'a store" where
  "new_ptr x s = (brk s, s\<lparr>heap := (heap s)(brk s := x), brk := Suc (brk s)\<rparr>)"

text \<open>Assignment through a pointer: \<open>p->field = v\<close>.\<close>

definition poke :: "xact_ptr \<Rightarrow> ('a xact_t \<Rightarrow> 'a xact_t) \<Rightarrow> 'a store \<Rightarrow> 'a store" where
  "poke p f s = s\<lparr>heap := (heap s)(p := f (heap s p))\<rparr>"

subsection \<open>The arithmetic library\<close>

text \<open>
  \<open>amount_t\<close>, \<open>commodity_t\<close>, \<open>value_t\<close> and \<open>balance_t\<close> are implemented
  outside entry.cc, and so are the methods of \<open>xact_t\<close>.  The functions of entry.cc
  are therefore modelled over an arbitrary implementation of the operations they call:
  \<open>'a\<close> is the type of amounts, \<open>'c\<close> of commodities and \<open>'v\<close> of values, and a
  record of type \<open>arith\<close> holds the operations.

  \<^item> \<open>amt_null\<close> is the default-constructed \<open>amount_t()\<close>; \<open>amt_to_bool\<close> is
    \<open>amount_t::operator bool\<close>; \<open>commodity_to_bool\<close> is \<open>commodity_t::operator bool\<close>;
  \<^item> \<open>annotation_price a\<close> is \<open>a.annotation_details().price\<close>;
  \<^item> \<open>NULL_VALUE\<close> is also the default-constructed \<open>value_t\<close>; \<open>val_of_amount\<close>
    is the conversion in \<open>balance = p\<close>; \<open>val_plus\<close> and \<open>val_minus\<close> are
    \<open>value_t::operator+=\<close> and \<open>operator-=\<close> with an amount; \<open>val_round v\<close> is
    what \<open>balance\<close> holds after the statement \<open>balance.round()\<close> when it held \<open>v\<close>
    before;
  \<^item> \<open>amounts v\<close> lists the mapped amounts of \<open>v.as_balance().amounts\<close> in the
    iteration order of that map;
  \<^item> \<open>as_amount\<close> is a partial accessor: it yields \<open>None\<close> where the value does not
    hold a single amount;
  \<^item> \<open>actual_date\<close> and \<open>must_balance\<close> are the methods of \<open>xact_t\<close> of these
    names;
  \<^item> \<open>exchange amount total_cost per_unit_cost moment tag\<close> is
    \<open>commodity_t::exchange\<close>; it returns the annotated amount, \<open>final_cost\<close> and
    \<open>basis_cost\<close>.
  Commodities are compared by equality, as \<open>commodity_t::operator==\<close> does.  Each
  operation is a total function: an exception raised inside the library is not
  modelled, except for the accessor \<open>as_amount\<close>.
\<close>

record ('a, 'c, 'v) arith =
  amt_null :: 'a
  amt_is_null :: "'a \<Rightarrow> bool"
  amt_is_realzero :: "'a \<Rightarrow> bool"
  amt_to_bool :: "'a \<Rightarrow> bool"
  amt_negate :: "'a \<Rightarrow> 'a"
  amt_abs :: "'a \<Rightarrow> 'a"
  amt_times :: "'a \<Rightarrow> 'a \<Rightarrow> 'a"
  amt_divide :: "'a \<Rightarrow> 'a \<Rightarrow> 'a"
  amt_minus :: "'a \<Rightarrow> 'a \<Rightarrow> 'a"
  commodity :: "'a \<Rightarrow> 'c"
  commodity_to_bool :: "'c \<Rightarrow> bool"
  commodity_annotated :: "'a \<Rightarrow> bool"
  annotation_price :: "'a \<Rightarrow> 'a option"
  NULL_VALUE :: 'v
  val_of_amount :: "'a \<Rightarrow> 'v"
  val_is_null :: "'v \<Rightarrow> bool"
  val_valid :: "'v \<Rightarrow> bool"
  val_is_zero :: "'v \<Rightarrow> bool"
  is_balance :: "'v \<Rightarrow> bool"
  amounts :: "'v \<Rightarrow> 'a list"
  as_amount :: "'v \<Rightarrow> 'a option"
  val_plus :: "'v \<Rightarrow> 'a \<Rightarrow> 'v"
  val_minus :: "'v \<Rightarrow> 'a \<Rightarrow> 'v"
  val_round :: "'v \<Rightarrow> 'v"
  actual_date :: "'a xact_t \<Rightarrow> nat"
  must_balance :: "'a xact_t \<Rightarrow> bool"
  exchange :: "'a \<Rightarrow> 'a option \<Rightarrow> 'a option \<Rightarrow> nat \<Rightarrow> string option \<Rightarrow> 'a \<times> 'a \<times> 'a"

text \<open>
  Modelled from the spec: the constructors \<open>xact_t(account, flags)\<close> and
  \<open>xact_t(account, amount, flags)\<close> are declared in xact.h, outside entry.cc.  Per
  the spec the first yields a posting with unset amount in the given account, the
  second a posting holding the given amount; neither has a cost.
\<close>

definition xact_new :: "('a, 'c, 'v) arith \<Rightarrow> account_t \<Rightarrow> xact_flag set \<Rightarrow> 'a xact_t" where
  "xact_new A acct fl =
     \<lparr>account = acct, amount = amt_null A, cost = None, state = UNCLEARED, flags = fl,
      date = None, date_eff = None, xact_note = None,
      beg_pos = 0, beg_line = 0, end_pos = 0, end_line = 0\<rparr>"

definition xact_new_amount :: "account_t \<Rightarrow> 'a \<Rightarrow> xact_flag set \<Rightarrow> 'a xact_t" where
  "xact_new_amount acct amt fl =
     \<lparr>account = acct, amount = amt, cost = None, state = UNCLEARED, flags = fl,
      date = None, date_eff = None, xact_note = None,
      beg_pos = 0, beg_line = 0, end_pos = 0, end_line = 0\<rparr>"

subsection \<open>Entries, automated entries and the journal\<close>

text \<open>
  The members of \<open>entry_t\<close> that \<open>entry_base_t\<close> lacks.  \<open>dynamic_cast<entry_t *>(this)\<close>
  in \<open>finalize\<close> yields these when the object is an \<open>entry_t\<close>.
\<close>

record entry_t =
  entry_date :: "nat option"
  entry_date_eff :: "nat option"
  code :: "string option"
  payee :: string

text \<open>Of the journal, \<open>finalize\<close> reads the default account \<open>journal->basket\<close>.\<close>

record journal_t =
  basket :: "account_t option"

text \<open>
  \<open>entry_base_t\<close>: the flag word inherited from \<open>supports_flags\<close>, the journal
  back-pointer (\<open>None\<close> is \<open>NULL\<close>), the source position and the list of posting
  pointers.
\<close>

record entry_base_t =
  entry_flags :: nat
  journal :: "journal_t option"
  entry_beg_pos :: nat
  entry_beg_line :: nat
  entry_end_pos :: nat
  entry_end_line :: nat
  xacts :: "xact_ptr list"
  as_entry :: "entry_t option"

text \<open>
  \<open>auto_entry_t\<close> derives from \<open>entry_base_t\<close> and adds the predicate; its \<open>xacts\<close>
  are the template postings.
\<close>

record 'a auto_entry_t = entry_base_t +
  predicate :: "'a xact_t \<Rightarrow> bool"

subsection \<open>Errors\<close>

text \<open>
  The exceptions thrown in entry.cc: \<open>std::logic_error\<close> with its message,
  \<open>balance_error\<close> with its message and its list of contexts, and a failed
  \<open>assert\<close> with the asserted expression.
\<close>

datatype 'v context_t =
  entry_context entry_base_t string
| value_context 'v string

datatype 'v error =
  logic_error string
| balance_error string "'v context_t list"
| assertion_failed string

text \<open>
  The two user-facing failures of \<open>finalize\<close>, under the names the spec gives them.
  \<open>Unbalanced\<close> is built as in the source: the error is created with the entry
  context, then the value context is pushed to the front of its context list.
\<close>

definition MultipleNullAmounts :: "'v error" where
  "MultipleNullAmounts = logic_error ''Only one xact with null amount allowed per entry''"

definition Unbalanced :: "entry_base_t \<Rightarrow> 'v \<Rightarrow> 'v error" where
  "Unbalanced e bal =
     balance_error ''Entry does not balance''
       [value_context bal ''Unbalanced remainder is:'',
        entry_context e ''While balancing entry:'']"

subsection \<open>add_xact, remove_xact\<close>

text \<open>\<open>xacts.push_back(xact)\<close>.\<close>

definition add_xact :: "xact_ptr \<Rightarrow> entry_base_t \<Rightarrow> entry_base_t" where
  "add_xact p e = e\<lparr>xacts := xacts e @ [p]\<rparr>"

text \<open>
  \<open>xacts.remove(xact); return true;\<close>  \<open>std::list::remove\<close> erases every element
  equal to the pointer.  The result is the returned flag and the entry afterwards.
\<close>

definition remove_xact :: "xact_ptr \<Rightarrow> entry_base_t \<Rightarrow> bool \<times> entry_base_t" where
  "remove_xact p e = (True, e\<lparr>xacts := removeAll p (xacts e)\<rparr>)"

subsection \<open>get_state\<close>

text \<open>
  \<open>entry_t::get_state(xact_t::state_t * state)\<close>.  The loop carries \<open>first\<close> and the
  cell \<open>*state\<close>; it returns \<open>hetero\<close> and the final contents of the cell.  The
  argument \<open>st\<close> of \<open>get_state\<close> is what the caller's variable holds on entry.
\<close>

fun get_state_loop ::
  "(xact_ptr \<Rightarrow> 'a xact_t) \<Rightarrow> xact_ptr list \<Rightarrow> bool \<Rightarrow> state_t \<Rightarrow> bool \<times> state_t" where
  "get_state_loop h [] first st = (False, st)"
| "get_state_loop h (i # is) first st =
     (if first then get_state_loop h is False (state (h i))
      else if st \<noteq> state (h i) then (True, st)
      else get_state_loop h is first st)"

definition get_state :: "'a store \<Rightarrow> entry_base_t \<Rightarrow> state_t \<Rightarrow> bool \<times> state_t" where
  "get_state s e st =
     (case get_state_loop (heap s) (xacts e) True st of (hetero, st') \<Rightarrow> (\<not> hetero, st'))"

section \<open>finalize\<close>

text \<open>
  \<open>entry_base_t::finalize\<close> runs five phases in sequence.  Each phase is modelled by
  its own function, in the order of the source; \<open>finalize\<close> below composes them.  A
  phase that can throw returns \<open>Inl\<close> of the error; the store and the entry are
  returned in either case, since a throw does not undo the assignments made so far.
\<close>

subsection \<open>The accumulation loop\<close>

text \<open>
  The first loop.  \<open>p\<close> is the cost where the posting has one, else the amount.  The
  loop carries \<open>balance\<close> and \<open>null_xact\<close> (\<open>None\<close> is \<open>NULL\<close>); it only reads
  the heap.
\<close>

definition cost_or_amount :: "'a xact_t \<Rightarrow> 'a" where
  "cost_or_amount x = (case cost x of Some c \<Rightarrow> c | None \<Rightarrow> amount x)"

fun finalize_accumulate ::
  "('a, 'c, 'v) arith \<Rightarrow> (xact_ptr \<Rightarrow> 'a xact_t) \<Rightarrow> xact_ptr list \<Rightarrow> 'v \<Rightarrow> xact_ptr option
     \<Rightarrow> 'v error + ('v \<times> xact_ptr option)" where
  "finalize_accumulate A h [] balance null_xact = Inr (balance, null_xact)"
| "finalize_accumulate A h (x # xs) balance null_xact =
     (if must_balance A (h x) then
        (let p = cost_or_amount (h x) in
         if \<not> amt_is_null A p then
           finalize_accumulate A h xs
             (if val_is_null A balance then val_of_amount A p else val_plus A balance p)
             null_xact
         else
           (case null_xact of
              Some n \<Rightarrow> Inl MultipleNullAmounts
            | None \<Rightarrow> finalize_accumulate A h xs balance (Some x)))
      else finalize_accumulate A h xs balance null_xact)"

subsection \<open>The default account\<close>

text \<open>
  \<open>if (journal && journal->basket && xacts.size() == 1)\<close>: a posting in the basket
  account is allocated, takes the state of the entry's first posting, is appended, and
  replaces \<open>null_xact\<close>.
\<close>

definition finalize_basket ::
  "('a, 'c, 'v) arith \<Rightarrow> xact_ptr option \<Rightarrow> 'a store \<Rightarrow> entry_base_t
     \<Rightarrow> xact_ptr option \<times> 'a store \<times> entry_base_t" where
  "finalize_basket A null_xact s e =
     (case journal e of
        None \<Rightarrow> (null_xact, s, e)
      | Some j \<Rightarrow>
          (case basket j of
             None \<Rightarrow> (null_xact, s, e)
           | Some b \<Rightarrow>
               if length (xacts e) = 1 then
                 (let (n, s1) = new_ptr (xact_new A b {XACT_GENERATED}) s;
                      s2 = poke n (\<lambda>x. x\<lparr>state := state (heap s1 (hd (xacts e)))\<rparr>) s1
                  in (Some n, s2, add_xact n e))
               else (null_xact, s, e)))"

subsection \<open>Resolving the null posting\<close>

text \<open>
  The loop over \<open>bal.amounts\<close> in the branch \<open>balance.is_balance()\<close>: the first
  amount, negated, is assigned to the null posting; every further one gives a new
  generated posting in the account of the null posting.
\<close>

fun finalize_null_amounts ::
  "('a, 'c, 'v) arith \<Rightarrow> xact_ptr \<Rightarrow> 'a list \<Rightarrow> bool \<Rightarrow> 'a store \<Rightarrow> entry_base_t
     \<Rightarrow> 'a store \<times> entry_base_t" where
  "finalize_null_amounts A n [] first s e = (s, e)"
| "finalize_null_amounts A n (a # as) first s e =
     (if first then
        finalize_null_amounts A n as False (poke n (\<lambda>x. x\<lparr>amount := amt_negate A a\<rparr>) s) e
      else
        (let (q, s1) =
               new_ptr (xact_new_amount (account (heap s n)) (amt_negate A a) {XACT_GENERATED}) s
         in finalize_null_amounts A n as False s1 (add_xact q e)))"

text \<open>
  The branch \<open>if (null_xact != NULL)\<close>.  In its \<open>else\<close> part the source calls
  \<open>balance.as_amount()\<close> without a test; where the value holds no single amount the
  accessor's own assertion fails.  The phase ends with \<open>balance = NULL_VALUE\<close>.
\<close>

definition finalize_null_xact ::
  "('a, 'c, 'v) arith \<Rightarrow> xact_ptr \<Rightarrow> 'v \<Rightarrow> 'a store \<Rightarrow> entry_base_t
     \<Rightarrow> ('v error + 'v) \<times> 'a store \<times> entry_base_t" where
  "finalize_null_xact A n balance s e =
     (if is_balance A balance then
        (let (s1, e1) = finalize_null_amounts A n (amounts A balance) True s e
         in (Inr (NULL_VALUE A), s1, e1))
      else
        (case as_amount A balance of
           None \<Rightarrow> (Inl (assertion_failed ''is_amount()''), s, e)
         | Some a \<Rightarrow>
             (Inr (NULL_VALUE A),
              poke n (\<lambda>x. x\<lparr>amount := amt_negate A a,
                               flags := insert XACT_CALCULATED (flags x)\<rparr>) s,
              e)))"

subsection \<open>Inferring the per-unit cost\<close>

text \<open>
  The loop over the postings in the branch for a balance of two commodities.  The
  condition is the source's \<open>! (cost || ! must_balance() || x_amt.commodity() == comm)\<close>.
\<close>

fun finalize_cost_loop ::
  "('a, 'c, 'v) arith \<Rightarrow> 'a \<Rightarrow> 'c \<Rightarrow> xact_ptr list \<Rightarrow> 'v \<Rightarrow> 'a store \<Rightarrow> 'v \<times> 'a store" where
  "finalize_cost_loop A per_unit_cost comm [] balance s = (balance, s)"
| "finalize_cost_loop A per_unit_cost comm (x # xs) balance s =
     (let x_amt = amount (heap s x) in
      if \<not> (cost (heap s x) \<noteq> None \<or> \<not> must_balance A (heap s x) \<or> commodity A x_amt = comm)
      then
        (let balance1 = val_minus A balance x_amt;
             s1 = poke x (\<lambda>y. y\<lparr>cost := Some (amt_times A per_unit_cost x_amt)\<rparr>) s;
             balance2 = val_plus A balance1 (the (cost (heap s1 x)))
         in finalize_cost_loop A per_unit_cost comm xs balance2 s1)
      else finalize_cost_loop A per_unit_cost comm xs balance s)"

text \<open>
  The body of the branch, entered when the balance holds exactly two amounts: \<open>x\<close> and
  \<open>y\<close> are the first and the second of them.
\<close>

definition finalize_per_unit_cost ::
  "('a, 'c, 'v) arith \<Rightarrow> 'v \<Rightarrow> 'a store \<Rightarrow> entry_base_t \<Rightarrow> 'v \<times> 'a store" where
  "finalize_per_unit_cost A balance s e =
     (let x = amounts A balance ! 0;
          y = amounts A balance ! 1
      in if \<not> amt_is_realzero A y then
           finalize_cost_loop A (amt_abs A (amt_divide A x y)) (commodity A x) (xacts e) balance s
         else (balance, s))"

text \<open>The \<open>if ... else if ...\<close> that selects between the two branches.\<close>

definition finalize_balance ::
  "('a, 'c, 'v) arith \<Rightarrow> xact_ptr option \<Rightarrow> 'v \<Rightarrow> 'a store \<Rightarrow> entry_base_t
     \<Rightarrow> ('v error + 'v) \<times> 'a store \<times> entry_base_t" where
  "finalize_balance A null_xact balance s e =
     (case null_xact of
        Some n \<Rightarrow> finalize_null_xact A n balance s e
      | None \<Rightarrow>
          if is_balance A balance \<and> length (amounts A balance) = 2 then
            (let (balance1, s1) = finalize_per_unit_cost A balance s e
             in (Inr balance1, s1, e))
          else (Inr balance, s, e))"

subsection \<open>The exchange loop\<close>

text \<open>
  The loop over the postings that have a cost.  \<open>entry ? entry->code : none\<close> is the
  code of the entry when the object is an \<open>entry_t\<close>.
\<close>

definition entry_code :: "entry_base_t \<Rightarrow> string option" where
  "entry_code e = (case as_entry e of None \<Rightarrow> None | Some en \<Rightarrow> code en)"

fun finalize_exchange ::
  "('a, 'c, 'v) arith \<Rightarrow> entry_base_t \<Rightarrow> xact_ptr list \<Rightarrow> 'v \<Rightarrow> 'a store
     \<Rightarrow> ('v error + 'v) \<times> 'a store" where
  "finalize_exchange A e [] balance s = (Inr balance, s)"
| "finalize_exchange A e (x # xs) balance s =
     (case cost (heap s x) of
        None \<Rightarrow> finalize_exchange A e xs balance s
      | Some c \<Rightarrow>
          (let x_amt = amount (heap s x) in
           if commodity A x_amt = commodity A c then
             (Inl (assertion_failed ''x_amt.commodity() != (*x)->cost->commodity()''), s)
           else
             (case exchange A x_amt (cost (heap s x)) None (actual_date A (heap s x)) (entry_code e)
              of (ann_amount, final_cost, basis_cost) \<Rightarrow>
                if commodity_annotated A (amount (heap s x)) then
                  (if annotation_price A ann_amount \<noteq> None then
                     finalize_exchange A e xs
                       (if val_is_null A balance
                        then val_of_amount A (amt_minus A basis_cost final_cost)
                        else val_plus A balance (amt_minus A basis_cost final_cost))
                       s
                   else finalize_exchange A e xs balance s)
                else
                  finalize_exchange A e xs balance
                    (poke x (\<lambda>y. y\<lparr>amount := ann_amount\<rparr>) s))))"

subsection \<open>The final check\<close>

definition finalize_check ::
  "('a, 'c, 'v) arith \<Rightarrow> 'v \<Rightarrow> 'a store \<Rightarrow> entry_base_t
     \<Rightarrow> ('v error + bool) \<times> 'a store \<times> entry_base_t" where
  "finalize_check A balance s e =
     (if \<not> val_is_null A balance then
        (let balance1 = val_round A balance in
         if \<not> val_is_zero A balance1 then (Inl (Unbalanced e balance1), s, e)
         else (Inr True, s, e))
      else (Inr True, s, e))"

subsection \<open>The whole function\<close>

text \<open>
  Everything up to the final check: accumulation, \<open>assert(balance.valid())\<close>, the
  default account, the null posting or the per-unit cost, and the exchange loop.  The
  result is the running balance that reaches the final check.
\<close>

definition finalize_passes ::
  "('a, 'c, 'v) arith \<Rightarrow> 'a store \<Rightarrow> entry_base_t
     \<Rightarrow> ('v error + 'v) \<times> 'a store \<times> entry_base_t" where
  "finalize_passes A s e =
     (case finalize_accumulate A (heap s) (xacts e) (NULL_VALUE A) None of
        Inl err \<Rightarrow> (Inl err, s, e)
      | Inr (balance, null_xact) \<Rightarrow>
          if \<not> val_valid A balance then (Inl (assertion_failed ''balance.valid()''), s, e)
          else
            (case finalize_basket A null_xact s e of
               (null_xact1, s1, e1) \<Rightarrow>
                 (case finalize_balance A null_xact1 balance s1 e1 of
                    (Inl err, s2, e2) \<Rightarrow> (Inl err, s2, e2)
                  | (Inr balance2, s2, e2) \<Rightarrow>
                      (case finalize_exchange A e2 (xacts e2) balance2 s2 of
                         (Inl err, s3) \<Rightarrow> (Inl err, s3, e2)
                       | (Inr balance3, s3) \<Rightarrow> (Inr balance3, s3, e2)))))"

definition finalize ::
  "('a, 'c, 'v) arith \<Rightarrow> 'a store \<Rightarrow> entry_base_t
     \<Rightarrow> ('v error + bool) \<times> 'a store \<times> entry_base_t" where
  "finalize A s e =
     (case finalize_passes A s e of
        (Inl err, s1, e1) \<Rightarrow> (Inl err, s1, e1)
      | (Inr balance, s1, e1) \<Rightarrow> finalize_check A balance s1 e1)"

section \<open>extend_entry\<close>

text \<open>
  The second half of the body of the inner loop of \<open>auto_entry_t::extend_entry\<close>, for
  the matched posting at \<open>i\<close>, the template posting at \<open>t\<close> and the amount \<open>amt\<close>
  computed in the first half.  The new posting is allocated with the account, the
  amount and the flags \<open>(*t)->flags() | XACT_AUTO\<close>; the other details are then copied
  from the template through the new pointer, and the posting is appended to the entry.
\<close>

definition extend_add ::
  "xact_ptr \<Rightarrow> xact_ptr \<Rightarrow> 'a \<Rightarrow> 'a store \<Rightarrow> entry_base_t
     \<Rightarrow> ('v error + unit) \<times> 'a store \<times> entry_base_t" where
  "extend_add i t amt s e =
     (let acct = account (heap s t) in
      if fullname acct = [] then (Inl (assertion_failed ''! fullname.empty()''), s, e)
      else
        (let acct1 = (if fullname acct = ''$account'' \<or> fullname acct = ''@account''
                      then account (heap s i) else acct);
             (n, s1) = new_ptr (xact_new_amount acct1 amt (insert XACT_AUTO (flags (heap s t)))) s;
             s2 = poke n (\<lambda>x. x\<lparr>state := state (heap s1 t),
                                   date := date (heap s1 t),
                                   date_eff := date_eff (heap s1 t),
                                   xact_note := xact_note (heap s1 t),
                                   beg_pos := beg_pos (heap s1 t),
                                   beg_line := beg_line (heap s1 t),
                                   end_pos := end_pos (heap s1 t),
                                   end_line := end_line (heap s1 t)\<rparr>) s1
         in (Inr (), s2, add_xact n e)))"

text \<open>
  The body of the inner loop.  A \<open>continue\<close> returns the store and the entry as they
  are.
\<close>

definition extend_xact ::
  "('a, 'c, 'v) arith \<Rightarrow> bool \<Rightarrow> xact_ptr \<Rightarrow> xact_ptr \<Rightarrow> 'a store \<Rightarrow> entry_base_t
     \<Rightarrow> ('v error + unit) \<times> 'a store \<times> entry_base_t" where
  "extend_xact A post i t s e =
     (if \<not> amt_to_bool A (amount (heap s t)) then
        (Inl (assertion_failed ''(*t)->amount''), s, e)
      else if \<not> commodity_to_bool A (commodity A (amount (heap s t))) then
        (if \<not> post then (Inr (), s, e)
         else if \<not> amt_to_bool A (amount (heap s i)) then
           (Inl (assertion_failed ''(*i)->amount''), s, e)
         else extend_add i t (amt_times A (amount (heap s i)) (amount (heap s t))) s e)
      else
        (if post then (Inr (), s, e)
         else extend_add i t (amount (heap s t)) s e))"

text \<open>The inner loop, over the template postings \<open>ts\<close> of the automated entry.\<close>

fun extend_templates ::
  "('a, 'c, 'v) arith \<Rightarrow> bool \<Rightarrow> xact_ptr \<Rightarrow> xact_ptr list \<Rightarrow> 'a store \<Rightarrow> entry_base_t
     \<Rightarrow> ('v error + unit) \<times> 'a store \<times> entry_base_t" where
  "extend_templates A post i [] s e = (Inr (), s, e)"
| "extend_templates A post i (t # ts) s e =
     (case extend_xact A post i t s e of
        (Inl err, s1, e1) \<Rightarrow> (Inl err, s1, e1)
      | (Inr u, s1, e1) \<Rightarrow> extend_templates A post i ts s1 e1)"

text \<open>
  The outer loop, over \<open>initial_xacts\<close>: the copy of the entry's list of pointers made
  on entry to the function.
\<close>

fun extend_initial ::
  "('a, 'c, 'v) arith \<Rightarrow> ('a xact_t \<Rightarrow> bool) \<Rightarrow> bool \<Rightarrow> xact_ptr list \<Rightarrow> xact_ptr list
     \<Rightarrow> 'a store \<Rightarrow> entry_base_t \<Rightarrow> ('v error + unit) \<times> 'a store \<times> entry_base_t" where
  "extend_initial A pred post ts [] s e = (Inr (), s, e)"
| "extend_initial A pred post ts (i # is) s e =
     (if pred (heap s i) then
        (case extend_templates A post i ts s e of
           (Inl err, s1, e1) \<Rightarrow> (Inl err, s1, e1)
         | (Inr u, s1, e1) \<Rightarrow> extend_initial A pred post ts is s1 e1)
      else extend_initial A pred post ts is s e)"

text \<open>
  \<open>extend_entry\<close> of the automated entry \<open>ae\<close>, applied to the entry \<open>e\<close> (an object
  other than \<open>ae\<close> itself).
\<close>

definition extend_entry ::
  "('a, 'c, 'v) arith \<Rightarrow> 'a auto_entry_t \<Rightarrow> bool \<Rightarrow> 'a store \<Rightarrow> entry_base_t
     \<Rightarrow> ('v error + unit) \<times> 'a store \<times> entry_base_t" where
  "extend_entry A ae post s e =
     (let initial_xacts = xacts e
      in extend_initial A (predicate ae) post (xacts ae) initial_xacts s e)"

text \<open>
  \<open>extend_entry_base\<close> applies the automated entries of the journal in their order;
  \<open>aes\<close> is \<open>journal->auto_entries\<close>.
\<close>

fun extend_entry_base ::
  "('a, 'c, 'v) arith \<Rightarrow> 'a auto_entry_t list \<Rightarrow> bool \<Rightarrow> 'a store \<Rightarrow> entry_base_t
     \<Rightarrow> ('v error + unit) \<times> 'a store \<times> entry_base_t" where
  "extend_entry_base A [] post s e = (Inr (), s, e)"
| "extend_entry_base A (ae # aes) post s e =
     (case extend_entry A ae post s e of
        (Inl err, s1, e1) \<Rightarrow> (Inl err, s1, e1)
      | (Inr u, s1, e1) \<Rightarrow> extend_entry_base A aes post s1 e1)"

section \<open>Notions used in the statements\<close>

text \<open>
  The postings that the accumulation loop treats as null: those that must balance and
  whose \<open>p\<close> (the cost if there is one, else the amount) is null.  \<open>unset_amount_xacts\<close>
  are the postings that must balance and whose amount is null, whatever their cost.
\<close>

definition null_xacts :: "('a, 'c, 'v) arith \<Rightarrow> (xact_ptr \<Rightarrow> 'a xact_t) \<Rightarrow> xact_ptr list \<Rightarrow> xact_ptr list" where
  "null_xacts A h xs = filter (\<lambda>p. must_balance A (h p) \<and> amt_is_null A (cost_or_amount (h p))) xs"

definition unset_amount_xacts ::
  "('a, 'c, 'v) arith \<Rightarrow> (xact_ptr \<Rightarrow> 'a xact_t) \<Rightarrow> xact_ptr list \<Rightarrow> xact_ptr list" where
  "unset_amount_xacts A h xs = filter (\<lambda>p. must_balance A (h p) \<and> amt_is_null A (amount (h p))) xs"

text \<open>
  The sum that the accumulation loop forms: \<open>p\<close> of every posting that must balance
  and whose \<open>p\<close> is not null, added from left to right to the initial balance.
\<close>

definition add_to_balance :: "('a, 'c, 'v) arith \<Rightarrow> 'v \<Rightarrow> 'a \<Rightarrow> 'v" where
  "add_to_balance A balance p =
     (if val_is_null A balance then val_of_amount A p else val_plus A balance p)"

definition balance_of :: "('a, 'c, 'v) arith \<Rightarrow> (xact_ptr \<Rightarrow> 'a xact_t) \<Rightarrow> xact_ptr list \<Rightarrow> 'v \<Rightarrow> 'v" where
  "balance_of A h xs balance =
     foldl (\<lambda>b p. add_to_balance A b (cost_or_amount (h p))) balance
       (filter (\<lambda>p. must_balance A (h p) \<and> \<not> amt_is_null A (cost_or_amount (h p))) xs)"

text \<open>
  The inference of costs as the spec words it.  A posting takes part when it must
  balance, has no cost, and its amount is in a commodity other than that of \<open>x\<close>; its
  cost becomes the per-unit cost times its amount, and the balance loses its amount and
  gains that cost.
\<close>

definition takes_cost :: "('a, 'c, 'v) arith \<Rightarrow> 'c \<Rightarrow> 'a xact_t \<Rightarrow> bool" where
  "takes_cost A comm x = (must_balance A x \<and> cost x = None \<and> commodity A (amount x) \<noteq> comm)"

definition infer_cost :: "('a, 'c, 'v) arith \<Rightarrow> 'a \<Rightarrow> 'c \<Rightarrow> 'a xact_t \<Rightarrow> 'a xact_t" where
  "infer_cost A per_unit_cost comm x =
     (if takes_cost A comm x then x\<lparr>cost := Some (amt_times A per_unit_cost (amount x))\<rparr> else x)"

definition inferred_balance ::
  "('a, 'c, 'v) arith \<Rightarrow> 'a \<Rightarrow> 'c \<Rightarrow> (xact_ptr \<Rightarrow> 'a xact_t) \<Rightarrow> xact_ptr list \<Rightarrow> 'v \<Rightarrow> 'v" where
  "inferred_balance A per_unit_cost comm h xs balance =
     foldl (\<lambda>b p. val_plus A (val_minus A b (amount (h p)))
                     (amt_times A per_unit_cost (amount (h p))))
       balance (filter (\<lambda>p. takes_cost A comm (h p)) xs)"

text \<open>
  An entry balances when it has no null posting left and the sum of the cost, or else
  the amount, of its postings that must balance is null or rounds to zero.
\<close>

definition entry_balances :: "('a, 'c, 'v) arith \<Rightarrow> (xact_ptr \<Rightarrow> 'a xact_t) \<Rightarrow> xact_ptr list \<Rightarrow> bool" where
  "entry_balances A h xs =
     (null_xacts A h xs = [] \<and>
      (val_is_null A (balance_of A h xs (NULL_VALUE A)) \<or>
       val_is_zero A (val_round A (balance_of A h xs (NULL_VALUE A)))))"

text \<open>
  What the balancing of a single posting against the default account relies on in the
  library: the null value is null, is no balance and holds no amount; the value made of
  an amount is that single amount; the negation of an amount is an amount, and added to
  the amount it gives zero; whether a posting must balance does not depend on its
  amount; and a posting whose only flags are calculated and generated must balance.
\<close>

definition default_account_laws :: "('a, 'c, 'v) arith \<Rightarrow> bool" where
  "default_account_laws A =
     (val_is_null A (NULL_VALUE A) \<and> \<not> is_balance A (NULL_VALUE A) \<and>
      as_amount A (NULL_VALUE A) = None \<and>
      (\<forall>a. \<not> is_balance A (val_of_amount A a) \<and> \<not> val_is_null A (val_of_amount A a) \<and>
           as_amount A (val_of_amount A a) = Some a) \<and>
      (\<forall>a. \<not> amt_is_null A a \<longrightarrow>
           \<not> amt_is_null A (amt_negate A a) \<and>
           val_is_zero A (val_round A (val_plus A (val_of_amount A a) (amt_negate A a)))) \<and>
      (\<forall>x a. must_balance A (x\<lparr>amount := a\<rparr>) = must_balance A x) \<and>
      (\<forall>x. flags x = {XACT_CALCULATED, XACT_GENERATED} \<longrightarrow> must_balance A x))"

text \<open>
  The expansion of an automated entry as the spec words it.  A template posting applies
  in one mode only: with \<open>post\<close> when its amount has no commodity, without \<open>post\<close>
  when it has one.  The amount it gives for a matched posting is the matched posting's
  amount times the template amount in the first case, the template amount unchanged in
  the second.  The posting it gives copies state, dates, note and source position from
  the template, is flagged auto on top of the template's flags, and is in the account
  of the template, or of the matched posting where the template names \<open>$account\<close>
  or \<open>@account\<close>.
\<close>

definition template_applies :: "('a, 'c, 'v) arith \<Rightarrow> bool \<Rightarrow> 'a xact_t \<Rightarrow> bool" where
  "template_applies A post t =
     (if commodity_to_bool A (commodity A (amount t)) then \<not> post else post)"

definition template_amount :: "('a, 'c, 'v) arith \<Rightarrow> 'a xact_t \<Rightarrow> 'a xact_t \<Rightarrow> 'a" where
  "template_amount A i t =
     (if commodity_to_bool A (commodity A (amount t)) then amount t
      else amt_times A (amount i) (amount t))"

definition auto_xact :: "('a, 'c, 'v) arith \<Rightarrow> 'a xact_t \<Rightarrow> 'a xact_t \<Rightarrow> 'a xact_t" where
  "auto_xact A i t =
     \<lparr>account = (if fullname (account t) = ''$account'' \<or> fullname (account t) = ''@account''
                 then account i else account t),
      amount = template_amount A i t, cost = None, state = state t,
      flags = insert XACT_AUTO (flags t),
      date = date t, date_eff = date_eff t, xact_note = xact_note t,
      beg_pos = beg_pos t, beg_line = beg_line t, end_pos = end_pos t, end_line = end_line t\<rparr>"

text \<open>
  The pairs of a matched posting and an applicable template posting, in the order of
  the expansion: the postings \<open>is\<close> that satisfy the predicate, each with the
  templates \<open>ts\<close> that apply; and the postings these pairs give.
\<close>

definition expansion_pairs ::
  "('a, 'c, 'v) arith \<Rightarrow> bool \<Rightarrow> ('a xact_t \<Rightarrow> bool) \<Rightarrow> (xact_ptr \<Rightarrow> 'a xact_t) \<Rightarrow> xact_ptr list
     \<Rightarrow> xact_ptr list \<Rightarrow> (xact_ptr \<times> xact_ptr) list" where
  "expansion_pairs A post pred h ts is =
     concat (map (\<lambda>i. map (Pair i) (filter (\<lambda>t. template_applies A post (h t)) ts))
               (filter (\<lambda>i. pred (h i)) is))"

definition generated_xacts ::
  "('a, 'c, 'v) arith \<Rightarrow> bool \<Rightarrow> ('a xact_t \<Rightarrow> bool) \<Rightarrow> (xact_ptr \<Rightarrow> 'a xact_t) \<Rightarrow> xact_ptr list
     \<Rightarrow> xact_ptr list \<Rightarrow> 'a xact_t list" where
  "generated_xacts A post pred h ts is =
     map (\<lambda>(i, t). auto_xact A (h i) (h t)) (expansion_pairs A post pred h ts is)"

text \<open>
  The assertions that the expansion makes of a matched posting and a template posting:
  the template amount is true; where the template applies, its account has a name,
  and the amount of the matched posting is true if it is to be multiplied.
\<close>

definition template_asserts :: "('a, 'c, 'v) arith \<Rightarrow> bool \<Rightarrow> 'a xact_t \<Rightarrow> 'a xact_t \<Rightarrow> bool" where
  "template_asserts A post i t =
     (amt_to_bool A (amount t) \<and>
      (template_applies A post t \<longrightarrow>
         fullname (account t) \<noteq> [] \<and>
         (\<not> commodity_to_bool A (commodity A (amount t)) \<longrightarrow> amt_to_bool A (amount i))))"

text \<open>Allocating the postings \<open>xs\<close> in order and appending each to the entry.\<close>

fun append_xacts :: "'a xact_t list \<Rightarrow> 'a store \<Rightarrow> entry_base_t \<Rightarrow> 'a store \<times> entry_base_t" where
  "append_xacts [] s e = (s, e)"
| "append_xacts (x # xs) s e =
     append_xacts xs (s\<lparr>heap := (heap s)(brk s := x), brk := Suc (brk s)\<rparr>) (add_xact (brk s) e)"

section \<open>A reference arithmetic\<close>

text \<open>
  Modelled from the spec: the arithmetic library and the commodity exchange are
  external to entry.cc.  The spec asks of them a single-commodity amount and a
  multi-commodity balance with add, subtract, multiply, divide, negate, absolute value,
  round and zero test, commodity identity, a canonical order of the commodities, and a
  lot exchange.  The instance below provides these over the rationals; it serves to run
  the functions above on concrete entries.  A commodity is a number, \<open>0\<close> being the
  null commodity of an amount without commodity; a balance lists its amounts by
  increasing commodity; an amount may carry the per-unit price of its lot.
\<close>

datatype ref_amount = Null_Amount | Amount rat nat "rat option"

fun ref_is_null :: "ref_amount \<Rightarrow> bool" where
  "ref_is_null Null_Amount = True"
| "ref_is_null (Amount q c p) = False"

fun ref_quantity :: "ref_amount \<Rightarrow> rat" where
  "ref_quantity Null_Amount = 0"
| "ref_quantity (Amount q c p) = q"

fun ref_commodity :: "ref_amount \<Rightarrow> nat" where
  "ref_commodity Null_Amount = 0"
| "ref_commodity (Amount q c p) = c"

fun ref_price :: "ref_amount \<Rightarrow> rat option" where
  "ref_price Null_Amount = None"
| "ref_price (Amount q c p) = p"

fun ref_negate :: "ref_amount \<Rightarrow> ref_amount" where
  "ref_negate Null_Amount = Null_Amount"
| "ref_negate (Amount q c p) = Amount (- q) c p"

fun ref_abs :: "ref_amount \<Rightarrow> ref_amount" where
  "ref_abs Null_Amount = Null_Amount"
| "ref_abs (Amount q c p) = Amount \<bar>q\<bar> c p"

text \<open>
  A binary operation on two amounts keeps the commodity of the left operand, or takes
  that of the right one when the left has none.
\<close>

fun ref_binop :: "(rat \<Rightarrow> rat \<Rightarrow> rat) \<Rightarrow> ref_amount \<Rightarrow> ref_amount \<Rightarrow> ref_amount" where
  "ref_binop f (Amount q c p) (Amount q' c' p') = Amount (f q q') (if c = 0 then c' else c) p"
| "ref_binop f a Null_Amount = Null_Amount"
| "ref_binop f Null_Amount b = Null_Amount"

datatype ref_value = Null_Value | Amount_Value ref_amount | Balance_Value "ref_amount list"

fun ref_balance_add :: "ref_amount \<Rightarrow> ref_amount list \<Rightarrow> ref_amount list" where
  "ref_balance_add a [] = [a]"
| "ref_balance_add a (b # bs) =
     (if ref_commodity a = ref_commodity b then ref_binop (+) b a # bs
      else if ref_commodity a < ref_commodity b then a # b # bs
      else b # ref_balance_add a bs)"

fun ref_val_plus :: "ref_value \<Rightarrow> ref_amount \<Rightarrow> ref_value" where
  "ref_val_plus Null_Value a = Amount_Value a"
| "ref_val_plus (Amount_Value b) a =
     (if ref_commodity b = ref_commodity a then Amount_Value (ref_binop (+) b a)
      else Balance_Value (ref_balance_add a [b]))"
| "ref_val_plus (Balance_Value bs) a = Balance_Value (ref_balance_add a bs)"

fun ref_val_is_zero :: "ref_value \<Rightarrow> bool" where
  "ref_val_is_zero Null_Value = True"
| "ref_val_is_zero (Amount_Value a) = (ref_quantity a = 0)"
| "ref_val_is_zero (Balance_Value bs) = list_all (\<lambda>a. ref_quantity a = 0) bs"

fun ref_amounts :: "ref_value \<Rightarrow> ref_amount list" where
  "ref_amounts (Balance_Value bs) = bs"
| "ref_amounts v = []"

fun ref_as_amount :: "ref_value \<Rightarrow> ref_amount option" where
  "ref_as_amount (Amount_Value a) = Some a"
| "ref_as_amount v = None"

text \<open>
  The exchange of \<open>amt\<close> for the total cost \<open>c\<close>: the final cost is \<open>c\<close>; the basis
  cost is the lot price times the quantity where \<open>amt\<close> carries a lot price, else
  \<open>c\<close>; the annotated amount is \<open>amt\<close> with the per-unit price of this exchange.
\<close>

fun ref_exchange ::
  "ref_amount \<Rightarrow> ref_amount option \<Rightarrow> ref_amount option \<Rightarrow> nat \<Rightarrow> string option
     \<Rightarrow> ref_amount \<times> ref_amount \<times> ref_amount" where
  "ref_exchange (Amount q c p) (Some (Amount q' c' p')) per_unit moment tag =
     (Amount q c (Some \<bar>q' / q\<bar>),
      Amount q' c' p',
      (case p of None \<Rightarrow> Amount q' c' p' | Some pr \<Rightarrow> Amount (pr * q) c' None))"
| "ref_exchange amt total_cost per_unit moment tag = (amt, Null_Amount, Null_Amount)"

definition ref_arith :: "(ref_amount, nat, ref_value) arith" where
  "ref_arith =
     \<lparr>amt_null = Null_Amount,
      amt_is_null = ref_is_null,
      amt_is_realzero = (\<lambda>a. ref_quantity a = 0),
      amt_to_bool = (\<lambda>a. ref_quantity a \<noteq> 0),
      amt_negate = ref_negate,
      amt_abs = ref_abs,
      amt_times = ref_binop (*),
      amt_divide = ref_binop (/),
      amt_minus = ref_binop (-),
      commodity = ref_commodity,
      commodity_to_bool = (\<lambda>c. c \<noteq> 0),
      commodity_annotated = (\<lambda>a. ref_price a \<noteq> None),
      annotation_price = (\<lambda>a. map_option (\<lambda>pr. Amount pr 0 None) (ref_price a)),
      NULL_VALUE = Null_Value,
      val_of_amount = Amount_Value,
      val_is_null = (\<lambda>v. v = Null_Value),
      val_valid = (\<lambda>v. True),
      val_is_zero = ref_val_is_zero,
      is_balance = (\<lambda>v. case v of Balance_Value bs \<Rightarrow> True | _ \<Rightarrow> False),
      amounts = ref_amounts,
      as_amount = ref_as_amount,
      val_plus = ref_val_plus,
      val_minus = (\<lambda>v a. ref_val_plus v (ref_negate a)),
      val_round = (\<lambda>v. v),
      actual_date = (\<lambda>x. case date x of Some d \<Rightarrow> d | None \<Rightarrow> 0),
      must_balance = (\<lambda>x. XACT_VIRTUAL \<notin> flags x),
      exchange = ref_exchange\<rparr>"

text \<open>Two commodities, and a posting with every detail at its default.\<close>

definition EUR :: nat where "EUR = 1"
definition USD :: nat where "USD = 2"

definition posting :: "string \<Rightarrow> ref_amount \<Rightarrow> ref_amount xact_t" where
  "posting name amt = xact_new_amount (Account name) amt {}"

text \<open>
  A store holding the postings \<open>xs\<close> at the addresses \<open>0, 1, ...\<close>, and an entry with
  the posting pointers \<open>ps\<close> and the journal \<open>j\<close>.
\<close>

definition store_of :: "'a xact_t list \<Rightarrow> 'a xact_t \<Rightarrow> 'a store" where
  "store_of xs d = \<lparr>heap = (\<lambda>p. if p < length xs then xs ! p else d), brk = length xs\<rparr>"

definition entry_of :: "xact_ptr list \<Rightarrow> journal_t option \<Rightarrow> entry_base_t" where
  "entry_of ps j =
     \<lparr>entry_flags = 0, journal = j, entry_beg_pos = 0, entry_beg_line = 0,
      entry_end_pos = 0, entry_end_line = 0, xacts = ps, as_entry = None\<rparr>"

definition ref_store :: "ref_amount xact_t list \<Rightarrow> ref_amount store" where
  "ref_store xs = store_of xs (posting [] Null_Amount)"

definition auto_entry_of :: "xact_ptr list \<Rightarrow> ('a xact_t \<Rightarrow> bool) \<Rightarrow> 'a auto_entry_t" where
  "auto_entry_of ts pred =
     \<lparr>entry_flags = 0, journal = None, entry_beg_pos = 0, entry_beg_line = 0,
      entry_end_pos = 0, entry_end_line = 0, xacts = ts, as_entry = None, predicate = pred\<rparr>"

section \<open>Example entries\<close>

text \<open>
  An income posting of 100 USD, and two template postings: a bare multiplier of one
  tenth on the sentinel account, and a fixed amount of 1 USD.
\<close>

definition tithe_store :: "ref_amount store" where
  "tithe_store =
     ref_store [posting ''Income'' (Amount 100 USD None),
                posting ''$account'' (Amount (1 / 10) 0 None),
                posting ''Tax'' (Amount 1 USD None)]"

text \<open>The entry of the spec's example: \<open>+10 USD\<close> and \<open>-9 USD\<close>.\<close>

definition unbalanced_store :: "ref_amount store" where
  "unbalanced_store =
     ref_store [posting ''Assets'' (Amount 10 USD None), posting ''Income'' (Amount (- 9) USD None)]"


definition two_null_store :: "ref_amount store" where
  "two_null_store =
     ref_store [posting ''Assets'' (Amount 5 USD None), posting ''Income'' Null_Amount,
                posting ''Equity'' Null_Amount]"

definition balanced_store :: "ref_amount store" where
  "balanced_store =
     ref_store [posting ''Assets'' (Amount 10 USD None), posting ''Income'' (Amount (- 10) USD None)]"

text \<open>
  The entry of the spec's example of a null posting with two commodities:
  \<open>+10 USD\<close>, \<open>+5 EUR\<close> and a posting without amount.  \<open>commodity_total c h ps\<close>
  sums the quantities of the postings \<open>ps\<close> whose amount is in commodity \<open>c\<close>.
\<close>

definition three_store :: "ref_amount store" where
  "three_store =
     ref_store [posting ''Assets'' (Amount 10 USD None), posting ''Cash'' (Amount 5 EUR None),
                posting ''Equity'' Null_Amount]"

definition commodity_total :: "nat \<Rightarrow> (xact_ptr \<Rightarrow> ref_amount xact_t) \<Rightarrow> xact_ptr list \<Rightarrow> rat" where
  "commodity_total c h ps =
     sum_list (map (\<lambda>p. ref_quantity (amount (h p)))
                 (filter (\<lambda>p. ref_commodity (amount (h p)) = c) ps))"

text \<open>The entry of the spec's example of two commodities: \<open>+10 EUR\<close> and \<open>-2 USD\<close>.\<close>

definition trade_store :: "ref_amount store" where
  "trade_store =
     ref_store [posting ''Assets'' (Amount 10 EUR None), posting ''Cash'' (Amount (- 2) USD None)]"

text \<open>A single posting of 10 USD, for an entry whose journal has a default account.\<close>

definition single_store :: "ref_amount store" where
  "single_store = ref_store [(posting ''Assets'' (Amount 10 USD None))\<lparr>state := CLEARED\<rparr>]"

definition basket_journal :: journal_t where
  "basket_journal = \<lparr>basket = Some (Account ''Equity'')\<rparr>"

text \<open>
  Two income postings and an expense between them, and the two template postings of
  \<open>tithe_store\<close>.
\<close>

definition ledger_store :: "ref_amount store" where
  "ledger_store =
     ref_store [posting ''Income'' (Amount 100 USD None),
                posting ''Rent'' (Amount 40 USD None),
                posting ''Income'' (Amount 50 USD None),
                posting ''$account'' (Amount (1 / 10) 0 None),
                posting ''Tax'' (Amount 1 USD None)]"

definition is_income :: "ref_amount xact_t \<Rightarrow> bool" where
  "is_income x = (account x = Account ''Income'')"

section \<open>Properties of the store\<close>

lemma heap_poke: "heap (poke p f s) = (heap s)(p := f (heap s p))"
  by (simp add: poke_def)

lemma brk_poke: "brk (poke p f s) = brk s"
  by (simp add: poke_def)

lemma new_ptr_eq: "new_ptr x s = (brk s, s\<lparr>heap := (heap s)(brk s := x), brk := Suc (brk s)\<rparr>)"
  by (simp add: new_ptr_def)

lemmas ref_simps = ref_arith_def ref_store_def store_of_def entry_of_def posting_def
  xact_new_amount_def xact_new_def USD_def EUR_def

section \<open>Properties of remove_xact and get_state\<close>

text \<open>
  C9.  For every entry and every posting pointer \<open>p\<close>, \<open>remove_xact\<close> returns true,
  also when \<open>p\<close> is not in the entry's posting list (the entry is then left as it was);
  it never reports failure.
\<close>

theorem remove_xact_returns_true:
  "fst (remove_xact p e) = True \<and>
   xacts (snd (remove_xact p e)) = removeAll p (xacts e) \<and>
   (p \<notin> set (xacts e) \<longrightarrow> remove_xact p e = (True, e))"
  by (simp add: remove_xact_def)


theorem remove_xact_returns_true_witness:
  "remove_xact 7 (entry_of [0, 1] None) = (True, entry_of [0, 1] None) \<and>
   remove_xact 1 (entry_of [0, 1, 1] None) = (True, entry_of [0] None)"
  using remove_xact_returns_true [of 7 "entry_of [0, 1] None"]
    remove_xact_returns_true [of 1 "entry_of [0, 1, 1] None"]
  by (simp add: entry_of_def remove_xact_def)

text \<open>
  C10.  For an entry whose posting list is empty, \<open>get_state\<close> returns true and leaves
  the caller's state variable as it was; for an entry with one posting it returns true
  as well, with the state of that posting.
\<close>

theorem get_state_empty_uniform:
  "(xacts e = [] \<longrightarrow> get_state s e st = (True, st)) \<and>
   (xacts e = [p] \<longrightarrow> get_state s e st = (True, state (heap s p)))"
  by (simp add: get_state_def)

theorem get_state_empty_uniform_witness:
  "get_state (ref_store [posting ''A'' Null_Amount]) (entry_of [] None) PENDING = (True, PENDING) \<and>
   get_state (ref_store [(posting ''A'' Null_Amount)\<lparr>state := CLEARED\<rparr>]) (entry_of [0] None) PENDING
     = (True, CLEARED)"
  using get_state_empty_uniform [of "entry_of [] None" "ref_store [posting ''A'' Null_Amount]" PENDING 0]
    get_state_empty_uniform [of "entry_of [0] None"
       "ref_store [(posting ''A'' Null_Amount)\<lparr>state := CLEARED\<rparr>]" PENDING 0]
  by (simp add: entry_of_def ref_store_def store_of_def)

section \<open>Properties of extend_entry\<close>

subsection \<open>One template posting\<close>

lemma extend_add_cases:
  "extend_add i t amt s e = (r, s', e') \<Longrightarrow>
     (\<exists>msg. r = Inl (assertion_failed msg) \<and> s' = s \<and> e' = e) \<or>
     (r = Inr () \<and> xacts e' = xacts e @ [brk s] \<and> e' = add_xact (brk s) e \<and> brk s' = Suc (brk s) \<and>
      amount (heap s' (brk s)) = amt \<and> (\<forall>p. p \<noteq> brk s \<longrightarrow> heap s' p = heap s p))"
  unfolding extend_add_def Let_def new_ptr_eq
  by (cases "fullname (account (heap s t)) = []")
     (auto simp: heap_poke brk_poke add_xact_def xact_new_amount_def)

text \<open>When the body of the inner loop completes: exactly when no assertion fails.\<close>

lemma extend_xact_success:
  "(fst (extend_xact A post i t s e) = Inr ()) \<longleftrightarrow>
     amt_to_bool A (amount (heap s t)) \<and>
     (if commodity_to_bool A (commodity A (amount (heap s t)))
      then post \<or> fullname (account (heap s t)) \<noteq> []
      else \<not> post \<or> (amt_to_bool A (amount (heap s i)) \<and> fullname (account (heap s t)) \<noteq> []))"
  by (simp add: extend_xact_def extend_add_def Let_def new_ptr_eq split: prod.splits)

text \<open>
  One pass of the inner loop, for a matched posting \<open>i\<close> and a template posting
  \<open>t\<close>.  A template whose amount has no commodity produces a new posting only when
  \<open>post\<close> is true, and its amount is the matched posting's amount times the template
  amount; a template whose amount has a commodity produces a new posting only when
  \<open>post\<close> is false, with the template amount unchanged; in the other mode of each,
  and when an assertion fails, the store and the entry are left as they were.
\<close>

lemma extend_xact_modes:
  assumes "extend_xact A post i t s e = (r, s', e')"
  shows "(\<forall>err. r = Inl err \<longrightarrow> s' = s \<and> e' = e) \<and>
    (\<not> commodity_to_bool A (commodity A (amount (heap s t))) \<longrightarrow>
       (post \<and> r = Inr () \<longrightarrow>
          xacts e' = xacts e @ [brk s] \<and> brk s' = Suc (brk s) \<and>
          amount (heap s' (brk s)) = amt_times A (amount (heap s i)) (amount (heap s t))) \<and>
       (\<not> post \<longrightarrow> s' = s \<and> e' = e)) \<and>
    (commodity_to_bool A (commodity A (amount (heap s t))) \<longrightarrow>
       (\<not> post \<and> r = Inr () \<longrightarrow>
          xacts e' = xacts e @ [brk s] \<and> brk s' = Suc (brk s) \<and>
          amount (heap s' (brk s)) = amount (heap s t)) \<and>
       (post \<longrightarrow> s' = s \<and> e' = e))"
  using assms unfolding extend_xact_def
  by (auto split: if_splits dest!: extend_add_cases)

subsection \<open>The snapshot\<close>

text \<open>
  The loops only allocate: they leave every posting below \<open>brk\<close> as it is, and the
  pointers they append are fresh.
\<close>

lemma extend_xact_frame:
  assumes "extend_xact A post i t s e = (r, s', e')"
  shows "brk s \<le> brk s' \<and> (\<forall>p. p < brk s \<longrightarrow> heap s' p = heap s p) \<and>
         (\<exists>new. xacts e' = xacts e @ new \<and> (\<forall>q\<in>set new. brk s \<le> q \<and> q < brk s'))"
  using assms unfolding extend_xact_def
  by (auto split: if_splits dest!: extend_add_cases)

lemma extend_templates_frame:
  "extend_templates A post i ts s e = (r, s', e') \<Longrightarrow>
     brk s \<le> brk s' \<and> (\<forall>p. p < brk s \<longrightarrow> heap s' p = heap s p) \<and>
     (\<exists>new. xacts e' = xacts e @ new \<and> (\<forall>q\<in>set new. brk s \<le> q \<and> q < brk s'))"
proof (induction ts arbitrary: s e)
  case Nil
  then show ?case by simp
next
  case (Cons t ts)
  obtain r1 s1 e1 where step: "extend_xact A post i t s e = (r1, s1, e1)"
    by (cases "extend_xact A post i t s e") auto
  note f1 = extend_xact_frame [OF step]
  show ?case
  proof (cases r1)
    case (Inl err)
    with Cons.prems step f1 show ?thesis by auto
  next
    case (Inr u)
    with Cons.prems step have rest: "extend_templates A post i ts s1 e1 = (r, s', e')" by simp
    note f2 = Cons.IH [OF rest]
    from f1 obtain new1 where n1: "xacts e1 = xacts e @ new1" "\<forall>q\<in>set new1. brk s \<le> q \<and> q < brk s1"
      by blast
    from f2 obtain new2 where n2: "xacts e' = xacts e1 @ new2" "\<forall>q\<in>set new2. brk s1 \<le> q \<and> q < brk s'"
      by blast
    have "xacts e' = xacts e @ (new1 @ new2)" using n1 n2 by simp
    moreover have "\<forall>q\<in>set (new1 @ new2). brk s \<le> q \<and> q < brk s'"
      using n1 n2 f1 f2 by fastforce
    ultimately show ?thesis using f1 f2 by (metis le_trans less_le_trans)
  qed
qed

lemma extend_initial_cong:
  "\<forall>p\<in>set is. p < brk s \<Longrightarrow> \<forall>p\<in>set is. pred (heap s p) = pred' (heap s p) \<Longrightarrow>
     extend_initial A pred post ts is s e = extend_initial A pred' post ts is s e"
proof (induction "is" arbitrary: s e)
  case Nil
  then show ?case by simp
next
  case (Cons i "is")
  show ?case
  proof (cases "pred (heap s i)")
    case False
    with Cons show ?thesis by simp
  next
    case True
    obtain r1 s1 e1 where step: "extend_templates A post i ts s e = (r1, s1, e1)"
      by (cases "extend_templates A post i ts s e") auto
    note f = extend_templates_frame [OF step]
    have "\<forall>p\<in>set is. p < brk s1" using Cons.prems f by fastforce
    moreover have "\<forall>p\<in>set is. pred (heap s1 p) = pred' (heap s1 p)" using Cons.prems f by simp
    ultimately have "extend_initial A pred post ts is s1 e1 = extend_initial A pred' post ts is s1 e1"
      by (rule Cons.IH)
    with True Cons.prems step show ?thesis by (cases r1) auto
  qed
qed

lemma extend_initial_filter:
  "\<forall>p\<in>set is. p < brk s \<Longrightarrow>
     extend_initial A pred post ts is s e =
     extend_initial A (\<lambda>x. True) post ts (filter (\<lambda>p. pred (heap s p)) is) s e"
proof (induction "is" arbitrary: s e)
  case Nil
  then show ?case by simp
next
  case (Cons i "is")
  show ?case
  proof (cases "pred (heap s i)")
    case False
    with Cons show ?thesis by simp
  next
    case True
    obtain r1 s1 e1 where step: "extend_templates A post i ts s e = (r1, s1, e1)"
      by (cases "extend_templates A post i ts s e") auto
    note f = extend_templates_frame [OF step]
    have wf1: "\<forall>p\<in>set is. p < brk s1" using Cons.prems f by fastforce
    have same: "filter (\<lambda>p. pred (heap s1 p)) is = filter (\<lambda>p. pred (heap s p)) is"
      using Cons.prems f by (intro filter_cong) auto
    have "extend_initial A pred post ts is s1 e1 =
          extend_initial A (\<lambda>x. True) post ts (filter (\<lambda>p. pred (heap s p)) is) s1 e1"
      using Cons.IH [OF wf1] same by simp
    with True step show ?thesis by (cases r1) auto
  qed
qed


lemma extend_initial_frame:
  "extend_initial A pred post ts is s e = (r, s', e') \<Longrightarrow>
     brk s \<le> brk s' \<and> (\<forall>p. p < brk s \<longrightarrow> heap s' p = heap s p) \<and>
     (\<exists>new. xacts e' = xacts e @ new \<and> (\<forall>q\<in>set new. brk s \<le> q \<and> q < brk s'))"
proof (induction "is" arbitrary: s e)
  case Nil
  then show ?case by simp
next
  case (Cons i "is")
  show ?case
  proof (cases "pred (heap s i)")
    case False
    with Cons show ?thesis by simp
  next
    case True
    obtain r1 s1 e1 where step: "extend_templates A post i ts s e = (r1, s1, e1)"
      by (cases "extend_templates A post i ts s e") auto
    note f1 = extend_templates_frame [OF step]
    show ?thesis
    proof (cases r1)
      case (Inl err)
      with Cons.prems True step f1 show ?thesis by auto
    next
      case (Inr u)
      with Cons.prems True step have rest: "extend_initial A pred post ts is s1 e1 = (r, s', e')"
        by simp
      note f2 = Cons.IH [OF rest]
      from f1 obtain new1 where n1: "xacts e1 = xacts e @ new1" "\<forall>q\<in>set new1. brk s \<le> q \<and> q < brk s1"
        by blast
      from f2 obtain new2 where n2: "xacts e' = xacts e1 @ new2" "\<forall>q\<in>set new2. brk s1 \<le> q \<and> q < brk s'"
        by blast
      have "xacts e' = xacts e @ (new1 @ new2)" using n1 n2 by simp
      moreover have "\<forall>q\<in>set (new1 @ new2). brk s \<le> q \<and> q < brk s'"
        using n1 n2 f1 f2 by fastforce
      ultimately show ?thesis using f1 f2 by (metis le_trans less_le_trans)
    qed
  qed
qed

subsection \<open>The expansion in closed form\<close>

text \<open>
  \<open>append_xacts\<close> allocates its postings at consecutive addresses from \<open>brk\<close>
  and leaves the postings below as they are.
\<close>

lemma append_xacts_append:
  "append_xacts (xs @ ys) s e = (case append_xacts xs s e of (s1, e1) \<Rightarrow> append_xacts ys s1 e1)"
  by (induction xs arbitrary: s e) simp_all

lemma append_xacts_frame:
  "append_xacts xs s e = (s', e') \<Longrightarrow>
     brk s' = brk s + length xs \<and>
     xacts e' = xacts e @ [brk s..<brk s + length xs] \<and>
     (\<forall>p<brk s. heap s' p = heap s p) \<and>
     (\<forall>k<length xs. heap s' (brk s + k) = xs ! k)"
proof (induction xs arbitrary: s e)
  case Nil
  then show ?case by simp
next
  case (Cons x xs)
  let ?s1 = "s\<lparr>heap := (heap s)(brk s := x), brk := Suc (brk s)\<rparr>"
  from Cons.prems have run: "append_xacts xs ?s1 (add_xact (brk s) e) = (s', e')" by simp
  note ih = Cons.IH [OF run]
  have "brk s' = brk s + length (x # xs)" using ih by simp
  moreover have "xacts e' = xacts e @ [brk s..<brk s + length (x # xs)]"
    using ih by (simp add: add_xact_def upt_conv_Cons del: upt_Suc)
  moreover have "\<forall>p<brk s. heap s' p = heap s p" using ih by simp
  moreover have "\<forall>k<length (x # xs). heap s' (brk s + k) = (x # xs) ! k"
  proof (intro allI impI)
    fix k assume k: "k < length (x # xs)"
    show "heap s' (brk s + k) = (x # xs) ! k"
    proof (cases k)
      case 0
      from ih have "heap s' (brk s) = heap ?s1 (brk s)" by simp
      with 0 show ?thesis by simp
    next
      case (Suc j)
      with k have "j < length xs" by simp
      with ih have "heap s' (brk ?s1 + j) = xs ! j" by blast
      with Suc show ?thesis by simp
    qed
  qed
  ultimately show ?case by blast
qed

lemma extend_add_eq:
  assumes "t < brk s" "fullname (account (heap s t)) \<noteq> []"
  shows "extend_add i t amt s e =
           (Inr (),
            append_xacts
              [\<lparr>account = (if fullname (account (heap s t)) = ''$account'' \<or>
                              fullname (account (heap s t)) = ''@account''
                           then account (heap s i) else account (heap s t)),
                amount = amt, cost = None, state = state (heap s t),
                flags = insert XACT_AUTO (flags (heap s t)),
                date = date (heap s t), date_eff = date_eff (heap s t),
                xact_note = xact_note (heap s t),
                beg_pos = beg_pos (heap s t), beg_line = beg_line (heap s t),
                end_pos = end_pos (heap s t), end_line = end_line (heap s t)\<rparr>] s e)"
  using assms
  by (simp add: extend_add_def Let_def new_ptr_eq poke_def xact_new_amount_def)

lemma extend_xact_ok:
  assumes "t < brk s" "template_asserts A post (heap s i) (heap s t)"
  shows "extend_xact A post i t s e =
           (Inr (),
            append_xacts (if template_applies A post (heap s t)
                          then [auto_xact A (heap s i) (heap s t)] else []) s e)"
  using assms
  by (auto simp: extend_xact_def template_asserts_def template_applies_def extend_add_eq
      auto_xact_def template_amount_def)

lemma extend_xact_fails:
  assumes "\<not> template_asserts A post (heap s i) (heap s t)"
  shows "\<exists>msg. extend_xact A post i t s e = (Inl (assertion_failed msg), s, e)"
  using assms
  by (auto simp: extend_xact_def template_asserts_def template_applies_def extend_add_def Let_def
      split: if_splits)


lemma extend_templates_ok:
  "i < brk s \<Longrightarrow> \<forall>t\<in>set ts. t < brk s \<Longrightarrow>
   \<forall>t\<in>set ts. template_asserts A post (heap s i) (heap s t) \<Longrightarrow>
     extend_templates A post i ts s e =
       (Inr (),
        append_xacts (map (\<lambda>t. auto_xact A (heap s i) (heap s t))
                        (filter (\<lambda>t. template_applies A post (heap s t)) ts)) s e)"
proof (induction ts arbitrary: s e)
  case Nil
  then show ?case by simp
next
  case (Cons t ts)
  let ?X = "if template_applies A post (heap s t) then [auto_xact A (heap s i) (heap s t)] else []"
  obtain s1 e1 where a1: "append_xacts ?X s e = (s1, e1)" by (cases "append_xacts ?X s e")
  have step: "extend_xact A post i t s e = (Inr (), s1, e1)"
    using Cons.prems extend_xact_ok [of t s A post i e] a1 by simp
  note f = append_xacts_frame [OF a1]
  have same: "\<forall>p<brk s. heap s1 p = heap s p" and le: "brk s \<le> brk s1" using f by simp_all
  have hi: "heap s1 i = heap s i" using same Cons.prems by simp
  have ht: "\<forall>u\<in>set ts. heap s1 u = heap s u" using same Cons.prems by simp
  have "extend_templates A post i ts s1 e1 =
       (Inr (),
        append_xacts (map (\<lambda>t. auto_xact A (heap s1 i) (heap s1 t))
                        (filter (\<lambda>t. template_applies A post (heap s1 t)) ts)) s1 e1)"
    using Cons.prems le hi ht by (intro Cons.IH) auto
  moreover have "filter (\<lambda>t. template_applies A post (heap s1 t)) ts
               = filter (\<lambda>t. template_applies A post (heap s t)) ts"
    using ht by (intro filter_cong) auto
  moreover have "map (\<lambda>t. auto_xact A (heap s1 i) (heap s1 t))
                   (filter (\<lambda>t. template_applies A post (heap s t)) ts)
               = map (\<lambda>t. auto_xact A (heap s i) (heap s t))
                   (filter (\<lambda>t. template_applies A post (heap s t)) ts)"
    using ht hi by (intro map_cong) auto
  ultimately have rest: "extend_templates A post i ts s1 e1 =
       (Inr (),
        append_xacts (map (\<lambda>t. auto_xact A (heap s i) (heap s t))
                        (filter (\<lambda>t. template_applies A post (heap s t)) ts)) s1 e1)"
    by simp
  have split: "map (\<lambda>t. auto_xact A (heap s i) (heap s t))
                 (filter (\<lambda>t. template_applies A post (heap s t)) (t # ts))
             = ?X @ map (\<lambda>t. auto_xact A (heap s i) (heap s t))
                      (filter (\<lambda>t. template_applies A post (heap s t)) ts)"
    by simp
  show ?case unfolding split append_xacts_append a1 using step rest by simp
qed

lemma extend_templates_fails:
  "i < brk s \<Longrightarrow> \<forall>t\<in>set ts. t < brk s \<Longrightarrow>
   \<not> (\<forall>t\<in>set ts. template_asserts A post (heap s i) (heap s t)) \<Longrightarrow>
     \<exists>msg. fst (extend_templates A post i ts s e) = Inl (assertion_failed msg)"
proof (induction ts arbitrary: s e)
  case Nil
  then show ?case by simp
next
  case (Cons t ts)
  show ?case
  proof (cases "template_asserts A post (heap s i) (heap s t)")
    case False
    from extend_xact_fails [OF False, of e] show ?thesis by auto
  next
    case True
    let ?X = "if template_applies A post (heap s t) then [auto_xact A (heap s i) (heap s t)] else []"
    obtain s1 e1 where a1: "append_xacts ?X s e = (s1, e1)" by (cases "append_xacts ?X s e")
    have step: "extend_xact A post i t s e = (Inr (), s1, e1)"
      using Cons.prems True extend_xact_ok [of t s A post i e] a1 by simp
    note f = append_xacts_frame [OF a1]
    have same: "\<forall>p<brk s. heap s1 p = heap s p" and le: "brk s \<le> brk s1" using f by simp_all
    have hi: "heap s1 i = heap s i" using same Cons.prems by simp
    have ht: "\<forall>u\<in>set ts. heap s1 u = heap s u" using same Cons.prems by simp
    have "\<not> (\<forall>t\<in>set ts. template_asserts A post (heap s1 i) (heap s1 t))"
      using Cons.prems True hi ht by auto
    moreover have "i < brk s1" "\<forall>t\<in>set ts. t < brk s1" using Cons.prems le by auto
    ultimately have "\<exists>msg. fst (extend_templates A post i ts s1 e1) = Inl (assertion_failed msg)"
      by (intro Cons.IH)
    with step show ?thesis by simp
  qed
qed

lemma generated_xacts_Cons:
  "generated_xacts A post pred h ts (i # is) =
     (if pred (h i)
      then map (\<lambda>t. auto_xact A (h i) (h t)) (filter (\<lambda>t. template_applies A post (h t)) ts)
      else []) @ generated_xacts A post pred h ts is"
  by (simp add: generated_xacts_def expansion_pairs_def comp_def)

lemma generated_xacts_cong:
  "\<forall>p\<in>set is \<union> set ts. h' p = h p \<Longrightarrow>
     generated_xacts A post pred h' ts is = generated_xacts A post pred h ts is"
proof (induction "is")
  case Nil
  then show ?case by (simp add: generated_xacts_def expansion_pairs_def)
next
  case (Cons i "is")
  have f: "filter (\<lambda>t. template_applies A post (h' t)) ts = filter (\<lambda>t. template_applies A post (h t)) ts"
    using Cons.prems by (intro filter_cong) auto
  have m: "map (\<lambda>t. auto_xact A (h' i) (h' t)) (filter (\<lambda>t. template_applies A post (h t)) ts)
         = map (\<lambda>t. auto_xact A (h i) (h t)) (filter (\<lambda>t. template_applies A post (h t)) ts)"
    using Cons.prems by (intro map_cong) auto
  have "h' i = h i" using Cons.prems by simp
  moreover have "generated_xacts A post pred h' ts is = generated_xacts A post pred h ts is"
    using Cons by simp
  ultimately show ?case using Cons.prems by (auto simp: generated_xacts_Cons f)
qed

lemma extend_initial_ok:
  "\<forall>i\<in>set is. i < brk s \<Longrightarrow> \<forall>t\<in>set ts. t < brk s \<Longrightarrow>
   \<forall>i\<in>set is. pred (heap s i) \<longrightarrow> (\<forall>t\<in>set ts. template_asserts A post (heap s i) (heap s t)) \<Longrightarrow>
     extend_initial A pred post ts is s e =
       (Inr (), append_xacts (generated_xacts A post pred (heap s) ts is) s e)"
proof (induction "is" arbitrary: s e)
  case Nil
  then show ?case by (simp add: generated_xacts_def expansion_pairs_def)
next
  case (Cons i "is")
  show ?case
  proof (cases "pred (heap s i)")
    case False
    with Cons show ?thesis by (simp add: generated_xacts_Cons)
  next
    case True
    let ?X = "map (\<lambda>t. auto_xact A (heap s i) (heap s t))
                (filter (\<lambda>t. template_applies A post (heap s t)) ts)"
    obtain s1 e1 where a1: "append_xacts ?X s e = (s1, e1)" by (cases "append_xacts ?X s e")
    have step: "extend_templates A post i ts s e = (Inr (), s1, e1)"
      using Cons.prems True extend_templates_ok [of i s ts A post e] a1 by simp
    note f = append_xacts_frame [OF a1]
    have same: "\<forall>p<brk s. heap s1 p = heap s p" and le: "brk s \<le> brk s1" using f by simp_all
    have hs: "\<forall>p\<in>set is \<union> set ts. heap s1 p = heap s p" using same Cons.prems by auto
    have "extend_initial A pred post ts is s1 e1 =
       (Inr (), append_xacts (generated_xacts A post pred (heap s1) ts is) s1 e1)"
      using Cons.prems le hs by (intro Cons.IH) auto
    then have rest: "extend_initial A pred post ts is s1 e1 =
       (Inr (), append_xacts (generated_xacts A post pred (heap s) ts is) s1 e1)"
      by (simp add: generated_xacts_cong [OF hs])
    show ?thesis using True step rest
      by (simp add: generated_xacts_Cons append_xacts_append a1)
  qed
qed

lemma extend_initial_fails:
  "\<forall>i\<in>set is. i < brk s \<Longrightarrow> \<forall>t\<in>set ts. t < brk s \<Longrightarrow>
   \<not> (\<forall>i\<in>set is. pred (heap s i) \<longrightarrow> (\<forall>t\<in>set ts. template_asserts A post (heap s i) (heap s t))) \<Longrightarrow>
     \<exists>msg. fst (extend_initial A pred post ts is s e) = Inl (assertion_failed msg)"
proof (induction "is" arbitrary: s e)
  case Nil
  then show ?case by simp
next
  case (Cons i "is")
  show ?case
  proof (cases "pred (heap s i)")
    case False
    with Cons.prems have "\<not> (\<forall>i\<in>set is. pred (heap s i) \<longrightarrow>
        (\<forall>t\<in>set ts. template_asserts A post (heap s i) (heap s t)))" by auto
    with Cons.prems False Cons.IH [of s e] show ?thesis by simp
  next
    case True
    show ?thesis
    proof (cases "\<forall>t\<in>set ts. template_asserts A post (heap s i) (heap s t)")
      case bad: False
      from extend_templates_fails [of i s ts A post e] Cons.prems bad
      obtain msg where "fst (extend_templates A post i ts s e) = Inl (assertion_failed msg)" by auto
      with True show ?thesis
        by (cases "extend_templates A post i ts s e") auto
    next
      case ok: True
      let ?X = "map (\<lambda>t. auto_xact A (heap s i) (heap s t))
                  (filter (\<lambda>t. template_applies A post (heap s t)) ts)"
      obtain s1 e1 where a1: "append_xacts ?X s e = (s1, e1)" by (cases "append_xacts ?X s e")
      have step: "extend_templates A post i ts s e = (Inr (), s1, e1)"
        using Cons.prems ok extend_templates_ok [of i s ts A post e] a1 by simp
      note f = append_xacts_frame [OF a1]
      have same: "\<forall>p<brk s. heap s1 p = heap s p" and le: "brk s \<le> brk s1" using f by simp_all
      have hs: "\<forall>p\<in>set is \<union> set ts. heap s1 p = heap s p" using same Cons.prems by auto
      have "\<not> (\<forall>i\<in>set is. pred (heap s1 i) \<longrightarrow>
          (\<forall>t\<in>set ts. template_asserts A post (heap s1 i) (heap s1 t)))"
        using Cons.prems True ok hs by auto
      moreover have "\<forall>i\<in>set is. i < brk s1" "\<forall>t\<in>set ts. t < brk s1" using Cons.prems le by auto
      ultimately have "\<exists>msg. fst (extend_initial A pred post ts is s1 e1) = Inl (assertion_failed msg)"
        by (intro Cons.IH)
      with True step show ?thesis by simp
    qed
  qed
qed


lemma extend_entry_outcome:
  assumes wf: "\<forall>p\<in>set (xacts e) \<union> set (xacts ae). p < brk s"
  shows "(\<forall>i\<in>set (xacts e). predicate ae (heap s i) \<longrightarrow>
            (\<forall>t\<in>set (xacts ae). template_asserts A post (heap s i) (heap s t))) \<Longrightarrow>
         extend_entry A ae post s e =
           (Inr (), append_xacts
                      (generated_xacts A post (predicate ae) (heap s) (xacts ae) (xacts e)) s e)"
    and "\<not> (\<forall>i\<in>set (xacts e). predicate ae (heap s i) \<longrightarrow>
            (\<forall>t\<in>set (xacts ae). template_asserts A post (heap s i) (heap s t))) \<Longrightarrow>
         \<exists>msg. fst (extend_entry A ae post s e) = Inl (assertion_failed msg)"
  using wf extend_initial_ok [of "xacts e" s "xacts ae" "predicate ae" A post e]
    extend_initial_fails [of "xacts e" s "xacts ae" "predicate ae" A post e]
  by (auto simp: extend_entry_def)

lemma length_expansion_pairs:
  "length (expansion_pairs A post pred h ts is) =
     length (filter (\<lambda>i. pred (h i)) is) * length (filter (\<lambda>t. template_applies A post (h t)) ts)"
  by (induction "is") (simp_all add: expansion_pairs_def)

lemma expansion_pairs_set:
  "(i, t) \<in> set (expansion_pairs A post pred h ts is) \<longleftrightarrow>
     i \<in> set is \<and> pred (h i) \<and> t \<in> set ts \<and> template_applies A post (h t)"
  by (auto simp: expansion_pairs_def)

lemma map_fst_expansion_pairs:
  "map fst (expansion_pairs A post pred h ts is) =
     concat (map (replicate (length (filter (\<lambda>t. template_applies A post (h t)) ts)))
               (filter (\<lambda>i. pred (h i)) is))"
  by (induction "is") (simp_all add: expansion_pairs_def comp_def map_replicate_const)

subsection \<open>Matched postings and template postings\<close>

text \<open>
  C5.  \<open>extend_entry\<close>, for an entry and an automated entry whose postings are
  allocated.  The call completes exactly when the assertions hold of every posting of
  the entry that satisfies the predicate and every template posting.  \<open>pairs\<close>
  lists, in the order of the expansion, each matched posting with each template posting
  that applies to it: \<open>(i, t)\<close> is among them exactly when \<open>i\<close> is a posting of the
  entry that satisfies the predicate and \<open>t\<close> is a template posting whose amount has
  no commodity, \<open>post\<close> being true, or has a commodity, \<open>post\<close> being false; in
  the other mode the template posting gives no pair.  Their number is the number of
  matched postings times the number of template postings that apply.  When the call
  completes it has appended one new posting for each pair, in that order, and nothing
  else; the amount of the posting for \<open>(i, t)\<close> is the amount of \<open>i\<close> times the
  amount of \<open>t\<close> when the amount of \<open>t\<close> has no commodity, and the amount of \<open>t\<close>
  unchanged when it has one.
\<close>

theorem extend_entry_templates:
  assumes wf: "\<forall>p\<in>set (xacts e) \<union> set (xacts ae). p < brk s"
    and run: "extend_entry A ae post s e = (r, s', e')"
    and pairs: "pairs = expansion_pairs A post (predicate ae) (heap s) (xacts ae) (xacts e)"
  shows "((r = Inr ()) =
           (\<forall>i\<in>set (xacts e). predicate ae (heap s i) \<longrightarrow>
              (\<forall>t\<in>set (xacts ae). template_asserts A post (heap s i) (heap s t)))) \<and>
         set pairs =
           {(i, t). i \<in> set (xacts e) \<and> predicate ae (heap s i) \<and> t \<in> set (xacts ae) \<and>
                    (if commodity_to_bool A (commodity A (amount (heap s t)))
                     then \<not> post else post)} \<and>
         length pairs =
           length (filter (\<lambda>i. predicate ae (heap s i)) (xacts e)) *
           length (filter (\<lambda>t. if commodity_to_bool A (commodity A (amount (heap s t)))
                                then \<not> post else post) (xacts ae)) \<and>
         (r = Inr () \<longrightarrow>
           xacts e' = xacts e @ [brk s..<brk s + length pairs] \<and>
           (\<forall>k<length pairs.
              amount (heap s' (brk s + k)) =
                (if commodity_to_bool A (commodity A (amount (heap s (snd (pairs ! k)))))
                 then amount (heap s (snd (pairs ! k)))
                 else amt_times A (amount (heap s (fst (pairs ! k))))
                        (amount (heap s (snd (pairs ! k)))))))"
proof -
  let ?ok = "\<forall>i\<in>set (xacts e). predicate ae (heap s i) \<longrightarrow>
              (\<forall>t\<in>set (xacts ae). template_asserts A post (heap s i) (heap s t))"
  let ?G = "generated_xacts A post (predicate ae) (heap s) (xacts ae) (xacts e)"
  have iff: "(r = Inr ()) = ?ok"
  proof (cases ?ok)
    case True
    with extend_entry_outcome(1) [OF wf, of A post] run show ?thesis by simp
  next
    case False
    with extend_entry_outcome(2) [OF wf, of A post] run show ?thesis by auto
  qed
  have st: "set pairs =
           {(i, t). i \<in> set (xacts e) \<and> predicate ae (heap s i) \<and> t \<in> set (xacts ae) \<and>
                    (if commodity_to_bool A (commodity A (amount (heap s t)))
                     then \<not> post else post)}"
    unfolding pairs by (auto simp: expansion_pairs_set template_applies_def)
  have ln: "length pairs =
           length (filter (\<lambda>i. predicate ae (heap s i)) (xacts e)) *
           length (filter (\<lambda>t. if commodity_to_bool A (commodity A (amount (heap s t)))
                                then \<not> post else post) (xacts ae))"
    unfolding pairs length_expansion_pairs by (simp add: template_applies_def)
  have out: "r = Inr () \<longrightarrow>
           xacts e' = xacts e @ [brk s..<brk s + length pairs] \<and>
           (\<forall>k<length pairs.
              amount (heap s' (brk s + k)) =
                (if commodity_to_bool A (commodity A (amount (heap s (snd (pairs ! k)))))
                 then amount (heap s (snd (pairs ! k)))
                 else amt_times A (amount (heap s (fst (pairs ! k))))
                        (amount (heap s (snd (pairs ! k))))))"
  proof
    assume "r = Inr ()"
    with iff have ok: ?ok by simp
    from extend_entry_outcome(1) [OF wf ok] run
    have app: "append_xacts ?G s e = (s', e')" by simp
    note f = append_xacts_frame [OF app]
    have len: "length ?G = length pairs" by (simp add: generated_xacts_def pairs)
    have "\<forall>k<length pairs.
              amount (heap s' (brk s + k)) =
                (if commodity_to_bool A (commodity A (amount (heap s (snd (pairs ! k)))))
                 then amount (heap s (snd (pairs ! k)))
                 else amt_times A (amount (heap s (fst (pairs ! k))))
                        (amount (heap s (snd (pairs ! k)))))"
    proof (intro allI impI)
      fix k assume k: "k < length pairs"
      with f len have "heap s' (brk s + k) = ?G ! k" by simp
      also have "?G ! k = auto_xact A (heap s (fst (pairs ! k))) (heap s (snd (pairs ! k)))"
        using k by (simp add: generated_xacts_def pairs case_prod_beta)
      finally show "amount (heap s' (brk s + k)) =
                (if commodity_to_bool A (commodity A (amount (heap s (snd (pairs ! k)))))
                 then amount (heap s (snd (pairs ! k)))
                 else amt_times A (amount (heap s (fst (pairs ! k))))
                        (amount (heap s (snd (pairs ! k)))))"
        by (simp add: auto_xact_def template_amount_def)
    qed
    with f len show "xacts e' = xacts e @ [brk s..<brk s + length pairs] \<and>
           (\<forall>k<length pairs.
              amount (heap s' (brk s + k)) =
                (if commodity_to_bool A (commodity A (amount (heap s (snd (pairs ! k)))))
                 then amount (heap s (snd (pairs ! k)))
                 else amt_times A (amount (heap s (fst (pairs ! k))))
                        (amount (heap s (snd (pairs ! k))))))"
      by simp
  qed
  from iff st ln out show ?thesis by blast
qed

lemmas extend_defs = extend_entry_def extend_xact_def extend_add_def auto_entry_of_def
  new_ptr_eq add_xact_def Let_def heap_poke brk_poke

theorem extend_entry_templates_witness:
  "expansion_pairs ref_arith True is_income (heap ledger_store) [3, 4] [0, 1, 2] = [(0, 3), (2, 3)] \<and>
   fst (extend_entry ref_arith (auto_entry_of [3, 4] is_income) True ledger_store
          (entry_of [0, 1, 2] None)) = Inr () \<and>
   xacts (snd (snd (extend_entry ref_arith (auto_entry_of [3, 4] is_income) True ledger_store
                     (entry_of [0, 1, 2] None)))) = [0, 1, 2, 5, 6] \<and>
   amount (heap (fst (snd (extend_entry ref_arith (auto_entry_of [3, 4] is_income) True ledger_store
                            (entry_of [0, 1, 2] None)))) 5) = Amount 10 USD None \<and>
   amount (heap (fst (snd (extend_entry ref_arith (auto_entry_of [3, 4] is_income) True ledger_store
                            (entry_of [0, 1, 2] None)))) 6) = Amount 5 USD None \<and>
   expansion_pairs ref_arith False is_income (heap ledger_store) [3, 4] [0, 1, 2] = [(0, 4), (2, 4)] \<and>
   xacts (snd (snd (extend_entry ref_arith (auto_entry_of [3, 4] is_income) False ledger_store
                     (entry_of [0, 1, 2] None)))) = [0, 1, 2, 5, 6] \<and>
   amount (heap (fst (snd (extend_entry ref_arith (auto_entry_of [3, 4] is_income) False ledger_store
                            (entry_of [0, 1, 2] None)))) 5) = Amount 1 USD None \<and>
   amount (heap (fst (snd (extend_entry ref_arith (auto_entry_of [3, 4] is_income) False ledger_store
                            (entry_of [0, 1, 2] None)))) 6) = Amount 1 USD None"
proof -
  let ?e = "entry_of [0, 1, 2] None"
  let ?ae = "auto_entry_of [3, 4] is_income"
  let ?T = "extend_entry ref_arith ?ae True ledger_store ?e"
  let ?F = "extend_entry ref_arith ?ae False ledger_store ?e"
  have wf: "\<forall>p\<in>set (xacts ?e) \<union> set (xacts ?ae). p < brk ledger_store"
    by (simp add: auto_entry_of_def ledger_store_def ref_simps)
  have h: "xacts ?e = [0, 1, 2]" "xacts ?ae = [3, 4]" "predicate ?ae = is_income"
      "brk ledger_store = 5"
    by (simp_all add: auto_entry_of_def ledger_store_def ref_simps)
  have v: "heap ledger_store 0 = posting ''Income'' (Amount 100 USD None)"
      "heap ledger_store 2 = posting ''Income'' (Amount 50 USD None)"
      "heap ledger_store 3 = posting ''$account'' (Amount (1 / 10) 0 None)"
      "heap ledger_store 4 = posting ''Tax'' (Amount 1 USD None)"
    by (simp_all add: ledger_store_def ref_store_def store_of_def)
  have pT: "expansion_pairs ref_arith True is_income (heap ledger_store) [3, 4] [0, 1, 2]
              = [(0, 3), (2, 3)]"
    and pF: "expansion_pairs ref_arith False is_income (heap ledger_store) [3, 4] [0, 1, 2]
              = [(0, 4), (2, 4)]"
    by (simp_all add: expansion_pairs_def template_applies_def is_income_def ledger_store_def
        ref_simps)
  have okT: "fst ?T = Inr ()" and okF: "fst ?F = Inr ()"
    by (simp_all add: extend_defs is_income_def ledger_store_def ref_simps)
  have cT: "?T = (fst ?T, fst (snd ?T), snd (snd ?T))"
    and cF: "?F = (fst ?F, fst (snd ?F), snd (snd ?F))" by simp_all
  note tT = extend_entry_templates [OF wf cT, of "[(0, 3), (2, 3)]"]
  note tF = extend_entry_templates [OF wf cF, of "[(0, 4), (2, 4)]"]
  have am: "amt_times ref_arith (Amount 100 USD None) (Amount (1 / 10) 0 None) = Amount 10 USD None"
      "amt_times ref_arith (Amount 50 USD None) (Amount (1 / 10) 0 None) = Amount 5 USD None"
      "\<not> commodity_to_bool ref_arith (commodity ref_arith (Amount (1 / 10) 0 None))"
      "commodity_to_bool ref_arith (commodity ref_arith (Amount 1 USD None))"
    by (simp_all add: ref_simps)
  have rT: "xacts (snd (snd ?T)) = [0, 1, 2, 5, 6] \<and>
            (\<forall>k<2. amount (heap (fst (snd ?T)) (5 + k)) =
               (if k = 0 then Amount 10 USD None else Amount 5 USD None))"
    using tT okT h pT v am
    by (auto simp: posting_def xact_new_amount_def less_Suc_eq numeral_2_eq_2)
  have rF: "xacts (snd (snd ?F)) = [0, 1, 2, 5, 6] \<and>
            (\<forall>k<2. amount (heap (fst (snd ?F)) (5 + k)) = Amount 1 USD None)"
    using tF okF h pF v am
    by (auto simp: posting_def xact_new_amount_def less_Suc_eq numeral_2_eq_2)
  from rT have aT: "amount (heap (fst (snd ?T)) 5) = Amount 10 USD None"
      "amount (heap (fst (snd ?T)) 6) = Amount 5 USD None"
    by (auto dest: spec [of _ 0], auto dest!: spec [of _ 1])
  from rF have aF: "amount (heap (fst (snd ?F)) 5) = Amount 1 USD None"
      "amount (heap (fst (snd ?F)) 6) = Amount 1 USD None"
    by (auto dest: spec [of _ 0], auto dest!: spec [of _ 1])
  from pT pF okT rT rF aT aF show ?thesis by blast
qed

subsection \<open>The matched postings are those of the snapshot\<close>

text \<open>
  C6.  \<open>extend_entry\<close> tests the predicate on the postings of the snapshot only: the
  copy of the entry's posting list made before the expansion.  For an entry whose
  postings are allocated, (1) the outcome is the same for any two predicates that agree
  on the snapshot postings, whatever they say of the postings generated by the call;
  (2) the call equals the expansion, without any test, of the snapshot postings that
  satisfy the predicate in the initial store; (3) the pointers appended are not in the
  snapshot, and the snapshot postings are not modified; (4) the matched postings, read
  off the pairs of the expansion in order, are the snapshot postings that satisfy the
  predicate in the initial store, in the order of the snapshot, each as many times as
  there are template postings that apply; (5) when the template postings are allocated
  too and the call completes, the posting list of the entry is the snapshot followed by
  one fresh pointer for each pair, and the posting at the \<open>k\<close>-th of them is the one
  obtained from the matched posting and the template posting of the \<open>k\<close>-th pair as
  they were in the initial store: no posting generated by the call is a source.
\<close>

theorem extend_entry_snapshot:
  assumes wf: "\<forall>p\<in>set (xacts e). p < brk s"
    and pairs: "pairs = expansion_pairs A post (predicate ae) (heap s) (xacts ae) (xacts e)"
  shows "(\<forall>ae'. xacts ae' = xacts ae \<and>
               (\<forall>p\<in>set (xacts e). predicate ae' (heap s p) = predicate ae (heap s p)) \<longrightarrow>
               extend_entry A ae' post s e = extend_entry A ae post s e) \<and>
         extend_entry A ae post s e =
           extend_initial A (\<lambda>x. True) post (xacts ae)
             (filter (\<lambda>p. predicate ae (heap s p)) (xacts e)) s e \<and>
         (\<forall>r s' e'. extend_entry A ae post s e = (r, s', e') \<longrightarrow>
            (\<exists>new. xacts e' = xacts e @ new \<and> (\<forall>q\<in>set new. q \<notin> set (xacts e))) \<and>
            (\<forall>p\<in>set (xacts e). heap s' p = heap s p)) \<and>
         map fst pairs =
           concat (map (replicate (length (filter (\<lambda>t. template_applies A post (heap s t)) (xacts ae))))
                     (filter (\<lambda>i. predicate ae (heap s i)) (xacts e))) \<and>
         ((\<forall>t\<in>set (xacts ae). t < brk s) \<longrightarrow>
          (\<forall>s' e'. extend_entry A ae post s e = (Inr (), s', e') \<longrightarrow>
             xacts e' = xacts e @ [brk s..<brk s + length pairs] \<and>
             brk s' = brk s + length pairs \<and>
             (\<forall>k<length pairs.
                heap s' (brk s + k) =
                  auto_xact A (heap s (fst (pairs ! k))) (heap s (snd (pairs ! k))))))"
proof (intro conjI allI impI)
  fix ae' :: "'a auto_entry_t"
  assume h: "xacts ae' = xacts ae \<and>
             (\<forall>p\<in>set (xacts e). predicate ae' (heap s p) = predicate ae (heap s p))"
  then show "extend_entry A ae' post s e = extend_entry A ae post s e"
    unfolding extend_entry_def Let_def
    using extend_initial_cong [OF wf, of "predicate ae'" "predicate ae" A post "xacts ae" e]
    by simp
next
  show "extend_entry A ae post s e =
        extend_initial A (\<lambda>x. True) post (xacts ae)
          (filter (\<lambda>p. predicate ae (heap s p)) (xacts e)) s e"
    unfolding extend_entry_def Let_def by (rule extend_initial_filter [OF wf])
next
  fix r s' e'
  assume "extend_entry A ae post s e = (r, s', e')"
  then have run: "extend_initial A (predicate ae) post (xacts ae) (xacts e) s e = (r, s', e')"
    by (simp add: extend_entry_def)
  note f = extend_initial_frame [OF run]
  from f obtain new where n: "xacts e' = xacts e @ new" "\<forall>q\<in>set new. brk s \<le> q \<and> q < brk s'"
    by blast
  have "\<forall>q\<in>set new. q \<notin> set (xacts e)" using n wf by fastforce
  with n show "\<exists>new. xacts e' = xacts e @ new \<and> (\<forall>q\<in>set new. q \<notin> set (xacts e))" by blast
  show "\<forall>p\<in>set (xacts e). heap s' p = heap s p" using f wf by simp
next
  show "map fst pairs =
           concat (map (replicate (length (filter (\<lambda>t. template_applies A post (heap s t)) (xacts ae))))
                     (filter (\<lambda>i. predicate ae (heap s i)) (xacts e)))"
    unfolding pairs by (rule map_fst_expansion_pairs)
next
  fix s' e'
  assume wft: "\<forall>t\<in>set (xacts ae). t < brk s"
    and run: "extend_entry A ae post s e = (Inr (), s', e')"
  let ?G = "generated_xacts A post (predicate ae) (heap s) (xacts ae) (xacts e)"
  have wf2: "\<forall>p\<in>set (xacts e) \<union> set (xacts ae). p < brk s" using wf wft by auto
  have ok: "\<forall>i\<in>set (xacts e). predicate ae (heap s i) \<longrightarrow>
              (\<forall>t\<in>set (xacts ae). template_asserts A post (heap s i) (heap s t))"
  proof (rule ccontr)
    assume "\<not> ?thesis"
    from extend_entry_outcome(2) [OF wf2 this] run show False by simp
  qed
  from extend_entry_outcome(1) [OF wf2 ok] run
  have app: "append_xacts ?G s e = (s', e')" by simp
  note f = append_xacts_frame [OF app]
  have len: "length ?G = length pairs" by (simp add: generated_xacts_def pairs)
  show "xacts e' = xacts e @ [brk s..<brk s + length pairs]" using f len by simp
  show "brk s' = brk s + length pairs" using f len by simp
  fix k assume k: "k < length pairs"
  with f len have "heap s' (brk s + k) = ?G ! k" by simp
  also have "?G ! k = auto_xact A (heap s (fst (pairs ! k))) (heap s (snd (pairs ! k)))"
    using k by (simp add: generated_xacts_def pairs case_prod_beta)
  finally show "heap s' (brk s + k) =
                  auto_xact A (heap s (fst (pairs ! k))) (heap s (snd (pairs ! k)))" .
qed

theorem extend_entry_snapshot_witness:
  "extend_entry ref_arith (auto_entry_of [3, 4] (\<lambda>x. is_income x \<and> XACT_AUTO \<notin> flags x)) True
       ledger_store (entry_of [0, 1, 2] None)
     = extend_entry ref_arith (auto_entry_of [3, 4] is_income) True ledger_store
         (entry_of [0, 1, 2] None) \<and>
   map fst (expansion_pairs ref_arith True is_income (heap ledger_store) [3, 4] [0, 1, 2]) = [0, 2] \<and>
   fst (extend_entry ref_arith (auto_entry_of [3, 4] is_income) True ledger_store
          (entry_of [0, 1, 2] None)) = Inr () \<and>
   xacts (snd (snd (extend_entry ref_arith (auto_entry_of [3, 4] is_income) True ledger_store
                     (entry_of [0, 1, 2] None)))) = [0, 1, 2, 5, 6] \<and>
   brk (fst (snd (extend_entry ref_arith (auto_entry_of [3, 4] is_income) True ledger_store
                   (entry_of [0, 1, 2] None)))) = 7 \<and>
   heap (fst (snd (extend_entry ref_arith (auto_entry_of [3, 4] is_income) True ledger_store
                    (entry_of [0, 1, 2] None)))) 5
     = (posting ''Income'' (Amount 10 USD None))\<lparr>flags := {XACT_AUTO}\<rparr> \<and>
   heap (fst (snd (extend_entry ref_arith (auto_entry_of [3, 4] is_income) True ledger_store
                    (entry_of [0, 1, 2] None)))) 6
     = (posting ''Income'' (Amount 5 USD None))\<lparr>flags := {XACT_AUTO}\<rparr> \<and>
   is_income ((posting ''Income'' (Amount 10 USD None))\<lparr>flags := {XACT_AUTO}\<rparr>) \<and>
   \<not> is_income (heap ledger_store 1)"
proof -
  let ?e = "entry_of [0, 1, 2] None"
  let ?ae = "auto_entry_of [3, 4] is_income"
  let ?ae' = "auto_entry_of [3, 4] (\<lambda>x. is_income x \<and> XACT_AUTO \<notin> flags x)"
  let ?T = "extend_entry ref_arith ?ae True ledger_store ?e"
  let ?ps = "[(0, 3), (2, 3)] :: (xact_ptr \<times> xact_ptr) list"
  have wf: "\<forall>p\<in>set (xacts ?e). p < brk ledger_store"
    by (simp add: ledger_store_def ref_simps)
  have h: "xacts ?e = [0, 1, 2]" "xacts ?ae = [3, 4]" "predicate ?ae = is_income"
      "brk ledger_store = 5"
    by (simp_all add: auto_entry_of_def ledger_store_def ref_simps)
  have v: "heap ledger_store 0 = posting ''Income'' (Amount 100 USD None)"
      "heap ledger_store 1 = posting ''Rent'' (Amount 40 USD None)"
      "heap ledger_store 2 = posting ''Income'' (Amount 50 USD None)"
      "heap ledger_store 3 = posting ''$account'' (Amount (1 / 10) 0 None)"
      "heap ledger_store 4 = posting ''Tax'' (Amount 1 USD None)"
    by (simp_all add: ledger_store_def ref_store_def store_of_def)
  have pT: "expansion_pairs ref_arith True is_income (heap ledger_store) [3, 4] [0, 1, 2]
              = [(0, 3), (2, 3)]"
    by (simp add: expansion_pairs_def template_applies_def is_income_def ledger_store_def
        ref_simps)
  have okT: "fst ?T = Inr ()"
    by (simp add: extend_defs is_income_def ledger_store_def ref_simps)
  then have cT: "?T = (Inr (), fst (snd ?T), snd (snd ?T))" by (simp add: prod_eq_iff)
  have agree: "xacts ?ae' = xacts ?ae \<and>
      (\<forall>p\<in>set (xacts ?e). predicate ?ae' (heap ledger_store p) = predicate ?ae (heap ledger_store p))"
    by (simp add: auto_entry_of_def is_income_def ledger_store_def ref_simps)
  have pe: "?ps =
      expansion_pairs ref_arith True (predicate ?ae) (heap ledger_store) (xacts ?ae) (xacts ?e)"
    using pT h by simp
  note t = extend_entry_snapshot [OF wf pe]
  have g: "auto_xact ref_arith (posting ''Income'' (Amount 100 USD None))
             (posting ''$account'' (Amount (1 / 10) 0 None))
             = (posting ''Income'' (Amount 10 USD None))\<lparr>flags := {XACT_AUTO}\<rparr>"
      "auto_xact ref_arith (posting ''Income'' (Amount 50 USD None))
             (posting ''$account'' (Amount (1 / 10) 0 None))
             = (posting ''Income'' (Amount 5 USD None))\<lparr>flags := {XACT_AUTO}\<rparr>"
    by (simp_all add: auto_xact_def template_amount_def ref_simps)
  have eq: "extend_entry ref_arith ?ae' True ledger_store ?e = ?T"
    using t agree by blast
  have mf: "map fst (expansion_pairs ref_arith True is_income (heap ledger_store) [3, 4] [0, 1, 2])
              = [0, 2]"
    using pT by simp
  have wft: "\<forall>t\<in>set (xacts ?ae). t < brk ledger_store" using h by simp
  have r: "xacts (snd (snd ?T)) = [0, 1, 2] @ [5..<5 + 2] \<and>
           brk (fst (snd ?T)) = 5 + 2 \<and>
           (\<forall>k<2. heap (fst (snd ?T)) (5 + k) =
              auto_xact ref_arith (heap ledger_store (fst (?ps ! k)))
                (heap ledger_store (snd (?ps ! k))))"
    using t [THEN conjunct2, THEN conjunct2, THEN conjunct2, THEN conjunct2, THEN mp, OF wft,
        THEN spec, THEN spec, THEN mp, OF cT] h
    by simp
  have x: "xacts (snd (snd ?T)) = [0, 1, 2, 5, 6]" "brk (fst (snd ?T)) = 7"
    using r by (simp_all add: upt_conv_Cons del: upt_Suc)
  from r have "heap (fst (snd ?T)) (5 + 0) =
              auto_xact ref_arith (heap ledger_store (fst (?ps ! 0)))
                (heap ledger_store (snd (?ps ! 0)))"
    by (auto dest: spec [of _ 0])
  then have g5: "heap (fst (snd ?T)) 5 = (posting ''Income'' (Amount 10 USD None))\<lparr>flags := {XACT_AUTO}\<rparr>"
    using v g by simp
  from r have "heap (fst (snd ?T)) (5 + 1) =
              auto_xact ref_arith (heap ledger_store (fst (?ps ! 1)))
                (heap ledger_store (snd (?ps ! 1)))"
    by (auto dest!: spec [of _ 1])
  then have g6: "heap (fst (snd ?T)) 6 = (posting ''Income'' (Amount 5 USD None))\<lparr>flags := {XACT_AUTO}\<rparr>"
    using v g by simp
  have i: "is_income ((posting ''Income'' (Amount 10 USD None))\<lparr>flags := {XACT_AUTO}\<rparr>)"
      "\<not> is_income (heap ledger_store 1)"
    by (simp_all add: is_income_def ledger_store_def ref_simps)
  from eq mf okT x g5 g6 i show ?thesis by blast
qed

section \<open>Properties of finalize\<close>

lemmas finalize_defs = finalize_def finalize_passes_def finalize_check_def finalize_basket_def
  finalize_balance_def finalize_null_xact_def finalize_per_unit_cost_def
  cost_or_amount_def entry_code_def Unbalanced_def MultipleNullAmounts_def

subsection \<open>The final check\<close>

text \<open>
  C1.  \<open>finalize\<close> succeeds if and only if the passes before the final check
  (accumulation, default account, null posting or per-unit cost, exchange) complete
  and leave a running balance that is null or rounds to zero; when they leave a balance
  that is not null and whose rounded value is not zero, \<open>finalize\<close> fails with the
  balance error \<open>Entry does not balance\<close>, whose contexts are the rounded residual
  balance, first, and the entry as the passes left it.
\<close>

theorem finalize_succeeds_iff:
  "(fst (finalize A s e) = Inr True \<longleftrightarrow>
      (\<exists>b. fst (finalize_passes A s e) = Inr b \<and>
           (val_is_null A b \<or> val_is_zero A (val_round A b)))) \<and>
   (\<forall>b s' e'. finalize_passes A s e = (Inr b, s', e') \<and>
        \<not> val_is_null A b \<and> \<not> val_is_zero A (val_round A b) \<longrightarrow>
        finalize A s e =
          (Inl (balance_error ''Entry does not balance''
                  [value_context (val_round A b) ''Unbalanced remainder is:'',
                   entry_context e' ''While balancing entry:'']), s', e'))"
  by (cases "finalize_passes A s e")
     (auto simp: finalize_def finalize_check_def Unbalanced_def Let_def split: sum.splits)

theorem finalize_succeeds_iff_witness:
  "finalize_passes ref_arith unbalanced_store (entry_of [0, 1] None)
     = (Inr (Amount_Value (Amount 1 USD None)), unbalanced_store, entry_of [0, 1] None) \<and>
   finalize ref_arith unbalanced_store (entry_of [0, 1] None)
     = (Inl (balance_error ''Entry does not balance''
               [value_context (Amount_Value (Amount 1 USD None)) ''Unbalanced remainder is:'',
                entry_context (entry_of [0, 1] None) ''While balancing entry:'']),
        unbalanced_store, entry_of [0, 1] None)"
proof -
  have run: "finalize_passes ref_arith unbalanced_store (entry_of [0, 1] None)
     = (Inr (Amount_Value (Amount 1 USD None)), unbalanced_store, entry_of [0, 1] None)"
    by (simp add: finalize_defs unbalanced_store_def ref_simps)
  have nz: "\<not> val_is_null ref_arith (Amount_Value (Amount 1 USD None)) \<and>
            \<not> val_is_zero ref_arith (val_round ref_arith (Amount_Value (Amount 1 USD None)))"
    by (simp add: ref_arith_def)
  have rd: "val_round ref_arith (Amount_Value (Amount 1 USD None)) = Amount_Value (Amount 1 USD None)"
    by (simp add: ref_arith_def)
  from finalize_succeeds_iff [of ref_arith unbalanced_store "entry_of [0, 1] None"] run nz
  have "finalize ref_arith unbalanced_store (entry_of [0, 1] None)
     = (Inl (balance_error ''Entry does not balance''
               [value_context (val_round ref_arith (Amount_Value (Amount 1 USD None)))
                  ''Unbalanced remainder is:'',
                entry_context (entry_of [0, 1] None) ''While balancing entry:'']),
        unbalanced_store, entry_of [0, 1] None)"
    by blast
  with run rd show ?thesis by simp
qed

subsection \<open>The accumulation loop\<close>

text \<open>
  The loop in closed form: it fails as soon as a second null posting is met, and
  otherwise returns the sum of the other postings and the null posting, if any.
\<close>

lemma accumulate_Some:
  "finalize_accumulate A h xs b (Some n) =
     (if null_xacts A h xs = [] then Inr (balance_of A h xs b, Some n) else Inl MultipleNullAmounts)"
  by (induction xs arbitrary: b)
     (simp_all add: null_xacts_def balance_of_def add_to_balance_def Let_def)

lemma accumulate_None:
  "finalize_accumulate A h xs b None =
     (case null_xacts A h xs of
        [] \<Rightarrow> Inr (balance_of A h xs b, None)
      | [n] \<Rightarrow> Inr (balance_of A h xs b, Some n)
      | n # m # ms \<Rightarrow> Inl MultipleNullAmounts)"
proof (induction xs arbitrary: b)
  case Nil
  then show ?case by (simp add: null_xacts_def balance_of_def)
next
  case (Cons x xs)
  show ?case
  proof (cases "must_balance A (h x) \<and> amt_is_null A (cost_or_amount (h x))")
    case True
    have "null_xacts A h (x # xs) = x # null_xacts A h xs"
      using True by (simp add: null_xacts_def)
    moreover have "balance_of A h (x # xs) b = balance_of A h xs b"
      using True by (simp add: balance_of_def)
    ultimately show ?thesis using True
      by (simp add: accumulate_Some Let_def split: list.splits)
  next
    case False
    have n: "null_xacts A h (x # xs) = null_xacts A h xs"
      using False by (simp add: null_xacts_def)
    show ?thesis
    proof (cases "must_balance A (h x)")
      case True
      with False have nn: "\<not> amt_is_null A (cost_or_amount (h x))" by simp
      have "balance_of A h (x # xs) b = balance_of A h xs (add_to_balance A b (cost_or_amount (h x)))"
        using True nn by (simp add: balance_of_def)
      then show ?thesis using True nn n Cons.IH
        by (cases "val_is_null A b") (simp_all add: Let_def add_to_balance_def split: list.splits)
    next
      case False
      then have "balance_of A h (x # xs) b = balance_of A h xs b"
        by (simp add: balance_of_def)
      then show ?thesis using False n Cons.IH by (simp split: list.splits)
    qed
  qed
qed

text \<open>
  The loop takes as null a posting that must balance and whose cost, or whose amount
  when it has no cost, is null.  For every entry with two or more such postings, the
  accumulation and with it \<open>finalize\<close> fail with \<open>MultipleNullAmounts\<close>, the store
  and the entry being as they were: no amount has been assigned.  With at most one such
  posting the accumulation completes, and returns that posting (the first and only one)
  as the null posting.
\<close>

theorem finalize_multiple_null:
  "(2 \<le> length (null_xacts A (heap s) (xacts e)) \<longrightarrow>
      finalize_accumulate A (heap s) (xacts e) (NULL_VALUE A) None = Inl MultipleNullAmounts \<and>
      finalize A s e = (Inl MultipleNullAmounts, s, e)) \<and>
   (length (null_xacts A (heap s) (xacts e)) \<le> 1 \<longrightarrow>
      finalize_accumulate A (heap s) (xacts e) (NULL_VALUE A) None =
        Inr (balance_of A (heap s) (xacts e) (NULL_VALUE A),
             case null_xacts A (heap s) (xacts e) of [] \<Rightarrow> None | n # ns \<Rightarrow> Some n))"
proof (cases "null_xacts A (heap s) (xacts e)")
  case Nil
  then show ?thesis by (simp add: accumulate_None)
next
  case (Cons n ns)
  then show ?thesis
    by (cases ns) (simp_all add: accumulate_None finalize_def finalize_passes_def)
qed

theorem finalize_multiple_null_witness:
  "length (null_xacts ref_arith (heap two_null_store) (xacts (entry_of [0, 1, 2] None))) = 2 \<and>
   finalize ref_arith two_null_store (entry_of [0, 1, 2] None)
     = (Inl MultipleNullAmounts, two_null_store, entry_of [0, 1, 2] None) \<and>
   length (null_xacts ref_arith (heap two_null_store) (xacts (entry_of [0, 1] None))) = 1 \<and>
   finalize_accumulate ref_arith (heap two_null_store) (xacts (entry_of [0, 1] None))
       (NULL_VALUE ref_arith) None
     = Inr (Amount_Value (Amount 5 USD None), Some 1)"
proof -
  have n2: "null_xacts ref_arith (heap two_null_store) (xacts (entry_of [0, 1, 2] None)) = [1, 2]"
    and n1: "null_xacts ref_arith (heap two_null_store) (xacts (entry_of [0, 1] None)) = [1]"
    and b1: "balance_of ref_arith (heap two_null_store) (xacts (entry_of [0, 1] None)) (NULL_VALUE ref_arith)
               = Amount_Value (Amount 5 USD None)"
    by (simp_all add: null_xacts_def balance_of_def add_to_balance_def two_null_store_def ref_simps
        cost_or_amount_def)
  from finalize_multiple_null [of ref_arith two_null_store "entry_of [0, 1, 2] None"]
    finalize_multiple_null [of ref_arith two_null_store "entry_of [0, 1] None"] n2 n1 b1
  show ?thesis by simp
qed

text \<open>
  Where every posting that has a cost has an amount, and the cost is not null, the
  postings that the loop takes as null are the postings whose amount is unset.
\<close>

lemma null_xacts_unset_amounts:
  assumes "\<forall>p\<in>set xs. \<forall>c. cost (h p) = Some c \<longrightarrow>
             \<not> amt_is_null A c \<and> \<not> amt_is_null A (amount (h p))"
  shows "null_xacts A h xs = unset_amount_xacts A h xs"
proof -
  have "\<forall>p\<in>set xs.
          (must_balance A (h p) \<and> amt_is_null A (cost_or_amount (h p))) =
          (must_balance A (h p) \<and> amt_is_null A (amount (h p)))"
    using assms by (auto simp: cost_or_amount_def split: option.splits)
  then show ?thesis
    unfolding null_xacts_def unset_amount_xacts_def by (auto intro: filter_cong)
qed

text \<open>
  For such an entry, two or more postings that must balance and have no amount make
  \<open>finalize\<close> fail with \<open>MultipleNullAmounts\<close>, the store and the entry being as
  they were.
\<close>

lemma finalize_multiple_unset_amounts:
  assumes "\<forall>p\<in>set (xacts e). \<forall>c. cost (heap s p) = Some c \<longrightarrow>
             \<not> amt_is_null A c \<and> \<not> amt_is_null A (amount (heap s p))"
    and "2 \<le> length (unset_amount_xacts A (heap s) (xacts e))"
  shows "finalize A s e = (Inl MultipleNullAmounts, s, e)"
  using finalize_multiple_null [of A s e] null_xacts_unset_amounts [OF assms(1)] assms(2)
  by simp


subsection \<open>What finalize changes in the entry\<close>

text \<open>Every phase leaves the entry as it is but for postings appended to its list.\<close>

lemma finalize_basket_entry:
  "finalize_basket A nx s e = (nx', s', e') \<Longrightarrow> \<exists>new. e' = e\<lparr>xacts := xacts e @ new\<rparr>"
  by (auto simp: finalize_basket_def new_ptr_eq add_xact_def Let_def
      split: option.splits if_splits intro: exI [of _ "[]"])

lemma finalize_null_amounts_entry:
  "finalize_null_amounts A n as first s e = (s', e') \<Longrightarrow> \<exists>new. e' = e\<lparr>xacts := xacts e @ new\<rparr>"
proof (induction "as" arbitrary: first s e)
  case Nil
  then show ?case by (auto intro: exI [of _ "[]"])
next
  case (Cons a "as")
  show ?case
  proof (cases first)
    case True
    with Cons.prems Cons.IH show ?thesis by simp
  next
    case False
    with Cons.prems have
      "finalize_null_amounts A n as False
         (snd (new_ptr (xact_new_amount (account (heap s n)) (amt_negate A a) {XACT_GENERATED}) s))
         (add_xact (brk s) e) = (s', e')"
      by (simp add: new_ptr_eq)
    from Cons.IH [OF this] obtain new where "e' = (add_xact (brk s) e)\<lparr>xacts := xacts (add_xact (brk s) e) @ new\<rparr>"
      by blast
    then have "e' = e\<lparr>xacts := xacts e @ (brk s # new)\<rparr>" by (simp add: add_xact_def)
    then show ?thesis by blast
  qed
qed

lemma finalize_balance_entry:
  "finalize_balance A nx b s e = (r, s', e') \<Longrightarrow> \<exists>new. e' = e\<lparr>xacts := xacts e @ new\<rparr>"
  by (auto simp: finalize_balance_def finalize_null_xact_def Let_def
      split: option.splits if_splits prod.splits
      dest: finalize_null_amounts_entry intro: exI [of _ "[]"])

lemma finalize_passes_entry:
  assumes "finalize_passes A s e = (r, s', e')"
  shows "\<exists>new. e' = e\<lparr>xacts := xacts e @ new\<rparr>"
proof (cases "finalize_accumulate A (heap s) (xacts e) (NULL_VALUE A) None")
  case (Inl err)
  with assms show ?thesis by (auto simp: finalize_passes_def intro: exI [of _ "[]"])
next
  case (Inr bn)
  obtain b nx where bn: "bn = (b, nx)" by (cases bn)
  show ?thesis
  proof (cases "val_valid A b")
    case False
    with assms Inr bn show ?thesis by (auto simp: finalize_passes_def intro: exI [of _ "[]"])
  next
    case True
    obtain nx1 s1 e1 where bk: "finalize_basket A nx s e = (nx1, s1, e1)"
      by (cases "finalize_basket A nx s e") auto
    obtain r2 s2 e2 where bl: "finalize_balance A nx1 b s1 e1 = (r2, s2, e2)"
      by (cases "finalize_balance A nx1 b s1 e1") auto
    from finalize_basket_entry [OF bk] obtain new1 where n1: "e1 = e\<lparr>xacts := xacts e @ new1\<rparr>" by blast
    from finalize_balance_entry [OF bl] obtain new2 where n2: "e2 = e1\<lparr>xacts := xacts e1 @ new2\<rparr>" by blast
    have e2: "e2 = e\<lparr>xacts := xacts e @ (new1 @ new2)\<rparr>" using n1 n2 by simp
    have "e' = e2" using assms Inr bn True bk bl
      by (auto simp: finalize_passes_def split: sum.splits prod.splits)
    with e2 show ?thesis by blast
  qed
qed

text \<open>
  Whatever its outcome, \<open>finalize\<close> hands back the entry as it was but for postings
  appended to its list: it writes no other member of the entry.
\<close>

lemma finalize_entry_frame:
  assumes "finalize A s e = (r, s', e')"
  shows "\<exists>new. e' = e\<lparr>xacts := xacts e @ new\<rparr>"
proof -
  obtain r1 s1 e1 where p: "finalize_passes A s e = (r1, s1, e1)"
    by (cases "finalize_passes A s e") auto
  from finalize_passes_entry [OF p] obtain new where n: "e1 = e\<lparr>xacts := xacts e @ new\<rparr>" by blast
  from assms p have "e' = e1"
    by (auto simp: finalize_def finalize_check_def Let_def split: sum.splits if_splits)
  with n show ?thesis by blast
qed

text \<open>
  C8.  The commented algorithm of \<open>finalize\<close> ends, for a balance of zero, with
  \<open>(setf (entry-normalizedp entry) t)\<close>; the code ends with \<open>return true\<close>.  The
  entry \<open>+10 USD\<close>, \<open>-10 USD\<close> balances as it stands: \<open>finalize\<close> returns true
  on it and hands back the store and the entry exactly as they were, so that nothing
  in them tells the entry from one that has not been through \<open>finalize\<close>.
\<close>

theorem finalize_balanced_unmarked:
  "finalize ref_arith balanced_store (entry_of [0, 1] None)
     = (Inr True, balanced_store, entry_of [0, 1] None)"
  by (simp add: finalize_defs balanced_store_def ref_simps)

subsection \<open>Frames of the phases\<close>

text \<open>
  The default account is not used unless the entry has exactly one posting.  The
  exchange loop allocates nothing and changes at most the amount of postings that
  have a cost.  The final check changes nothing.
\<close>

lemma finalize_basket_skip:
  "length (xacts e) \<noteq> 1 \<Longrightarrow> finalize_basket A nx s e = (nx, s, e)"
  by (simp add: finalize_basket_def split: option.splits)

lemma finalize_exchange_frame:
  "finalize_exchange A e xs b s = (r, s') \<Longrightarrow>
     brk s' = brk s \<and>
     (\<forall>p. heap s' p = (heap s p)\<lparr>amount := amount (heap s' p)\<rparr>) \<and>
     (\<forall>p. cost (heap s p) = None \<longrightarrow> heap s' p = heap s p)"
proof (induction xs arbitrary: b s)
  case Nil
  then show ?case by simp
next
  case (Cons x xs)
  show ?case
  proof (cases "cost (heap s x)")
    case None
    with Cons show ?thesis by simp
  next
    case (Some c)
    show ?thesis
    proof (cases "commodity A (amount (heap s x)) = commodity A c")
      case True
      with Cons.prems Some show ?thesis by simp
    next
      case False
      obtain ann fc bc where ex:
        "exchange A (amount (heap s x)) (Some c) None (actual_date A (heap s x)) (entry_code e)
           = (ann, fc, bc)"
        by (cases "exchange A (amount (heap s x)) (Some c) None (actual_date A (heap s x)) (entry_code e)")
      show ?thesis
      proof (cases "commodity_annotated A (amount (heap s x))")
        case True
        with Cons.prems Some False ex
        have "\<exists>b'. finalize_exchange A e xs b' s = (r, s')"
          by (auto simp: Let_def split: if_splits)
        then show ?thesis using Cons.IH by blast
      next
        case nann: False
        let ?s1 = "poke x (\<lambda>y. y\<lparr>amount := ann\<rparr>) s"
        from Cons.prems Some False ex nann
        have run: "finalize_exchange A e xs b ?s1 = (r, s')"
          by (simp add: Let_def)
        note ih = Cons.IH [OF run]
        have h1: "\<And>p. heap ?s1 p = (if p = x then (heap s x)\<lparr>amount := ann\<rparr> else heap s p)"
          by (simp add: heap_poke)
        have "brk s' = brk s" using ih by (simp add: brk_poke)
        moreover have "\<forall>p. heap s' p = (heap s p)\<lparr>amount := amount (heap s' p)\<rparr>"
        proof
          fix p
          from ih have "heap s' p = (heap ?s1 p)\<lparr>amount := amount (heap s' p)\<rparr>" by blast
          then show "heap s' p = (heap s p)\<lparr>amount := amount (heap s' p)\<rparr>"
            by (cases "p = x") (simp_all add: h1)
        qed
        moreover have "\<forall>p. cost (heap s p) = None \<longrightarrow> heap s' p = heap s p"
        proof (intro allI impI)
          fix p assume n: "cost (heap s p) = None"
          with Some have "p \<noteq> x" by auto
          then have "heap ?s1 p = heap s p" by (simp add: h1)
          with ih n show "heap s' p = heap s p" by metis
        qed
        ultimately show ?thesis by blast
      qed
    qed
  qed
qed

lemma null_xacts_subset: "set (null_xacts A h xs) \<subseteq> set xs"
  by (auto simp: null_xacts_def)

lemma finalize_check_frame:
  "finalize_check A b s e = (r, s', e') \<Longrightarrow> s' = s \<and> e' = e"
  by (auto simp: finalize_check_def Let_def split: if_splits)

subsection \<open>The null posting and a balance of several commodities\<close>

text \<open>
  The loop over the amounts of the balance, after its first pass: one fresh posting per
  amount, in order, in the account of the null posting.
\<close>

lemma finalize_null_amounts_False:
  "n < brk s \<Longrightarrow> finalize_null_amounts A n as False s e = (s', e') \<Longrightarrow>
     brk s' = brk s + length as \<and>
     xacts e' = xacts e @ [brk s..<brk s + length as] \<and>
     (\<forall>p<brk s. heap s' p = heap s p) \<and>
     (\<forall>k<length as. heap s' (brk s + k) =
        xact_new_amount (account (heap s n)) (amt_negate A (as ! k)) {XACT_GENERATED})"
proof (induction "as" arbitrary: s e)
  case Nil
  then show ?case by simp
next
  case (Cons a "as")
  let ?x = "xact_new_amount (account (heap s n)) (amt_negate A a) {XACT_GENERATED}"
  let ?s1 = "s\<lparr>heap := (heap s)(brk s := ?x), brk := Suc (brk s)\<rparr>"
  from Cons.prems have run: "finalize_null_amounts A n as False ?s1 (add_xact (brk s) e) = (s', e')"
    by (simp add: new_ptr_eq)
  have n1: "n < brk ?s1" using Cons.prems by simp
  note ih = Cons.IH [OF n1 run]
  have acct: "account (heap ?s1 n) = account (heap s n)" using Cons.prems by simp
  have "brk s' = brk s + length (a # as)" using ih by simp
  moreover have "xacts e' = xacts e @ [brk s..<brk s + length (a # as)]"
    using ih by (simp add: add_xact_def upt_conv_Cons del: upt_Suc)
  moreover have "\<forall>p<brk s. heap s' p = heap s p"
    using ih by simp
  moreover have "\<forall>k<length (a # as). heap s' (brk s + k) =
        xact_new_amount (account (heap s n)) (amt_negate A ((a # as) ! k)) {XACT_GENERATED}"
  proof (intro allI impI)
    fix k assume k: "k < length (a # as)"
    show "heap s' (brk s + k) =
        xact_new_amount (account (heap s n)) (amt_negate A ((a # as) ! k)) {XACT_GENERATED}"
    proof (cases k)
      case 0
      from ih have "heap s' (brk s) = heap ?s1 (brk s)" by simp
      with 0 show ?thesis by simp
    next
      case (Suc j)
      with k have "j < length as" by simp
      with ih have "heap s' (brk ?s1 + j) =
          xact_new_amount (account (heap ?s1 n)) (amt_negate A (as ! j)) {XACT_GENERATED}"
        by blast
      with Suc acct show ?thesis by simp
    qed
  qed
  ultimately show ?case by blast
qed

lemma finalize_null_xact_balance:
  assumes bal: "is_balance A bal" "amounts A bal = a # rest" and n: "n < brk s"
    and run: "finalize_null_xact A n bal s e = (r, s', e')"
  shows "r = Inr (NULL_VALUE A) \<and>
         brk s' = brk s + length rest \<and>
         heap s' n = (heap s n)\<lparr>amount := amt_negate A a\<rparr> \<and>
         xacts e' = xacts e @ [brk s..<brk s + length rest] \<and>
         (\<forall>k<length rest. heap s' (brk s + k) =
            xact_new_amount (account (heap s n)) (amt_negate A (rest ! k)) {XACT_GENERATED}) \<and>
         (\<forall>p<brk s. p \<noteq> n \<longrightarrow> heap s' p = heap s p)"
proof -
  let ?s0 = "poke n (\<lambda>x. x\<lparr>amount := amt_negate A a\<rparr>) s"
  from run bal have r: "r = Inr (NULL_VALUE A)"
    and loop: "finalize_null_amounts A n rest False ?s0 e = (s', e')"
    by (auto simp: finalize_null_xact_def split: prod.splits)
  have n0: "n < brk ?s0" using n by (simp add: brk_poke)
  note f = finalize_null_amounts_False [OF n0 loop]
  have h0: "\<And>p. heap ?s0 p = (if p = n then (heap s n)\<lparr>amount := amt_negate A a\<rparr> else heap s p)"
    by (simp add: heap_poke)
  from f n show ?thesis by (simp add: r h0 brk_poke)
qed


text \<open>The run of \<open>finalize\<close> on \<open>+10 USD\<close>, \<open>+5 EUR\<close> and a null posting.\<close>

lemma three_store_finalize:
  "fst (finalize ref_arith three_store (entry_of [0, 1, 2] None)) = Inr True \<and>
   xacts (snd (snd (finalize ref_arith three_store (entry_of [0, 1, 2] None)))) = [0, 1, 2, 3] \<and>
   commodity_total USD (heap (fst (snd (finalize ref_arith three_store (entry_of [0, 1, 2] None)))))
     (xacts (snd (snd (finalize ref_arith three_store (entry_of [0, 1, 2] None))))) = 0 \<and>
   commodity_total EUR (heap (fst (snd (finalize ref_arith three_store (entry_of [0, 1, 2] None)))))
     (xacts (snd (snd (finalize ref_arith three_store (entry_of [0, 1, 2] None))))) = 0"
  by (simp add: commodity_total_def finalize_defs three_store_def ref_simps new_ptr_eq
      heap_poke brk_poke add_xact_def)

text \<open>
  C3 (as amended).  Take an entry with exactly one null posting \<open>n\<close> (a posting
  without cost), not subject to the default account, whose accumulated balance is a
  multi-commodity balance with the amounts \<open>a # rest\<close> in canonical order.  Whatever
  its outcome, \<open>finalize\<close> sets the amount of \<open>n\<close> to the negation of \<open>a\<close> and
  appends, for each amount of \<open>rest\<close> in order, one new posting flagged generated, in
  the account of \<open>n\<close>, holding the negation of that amount: one extra posting per
  commodity beyond the first.  For \<open>+10 USD\<close>, \<open>+5 EUR\<close> and a null posting, run on
  the reference arithmetic, that is one extra posting, and each commodity sums to zero.
\<close>

theorem finalize_null_multi:
  assumes one: "null_xacts A (heap s) (xacts e) = [n]"
    and nocost: "cost (heap s n) = None"
    and len: "length (xacts e) \<noteq> 1"
    and wf: "\<forall>p\<in>set (xacts e). p < brk s"
    and valid: "val_valid A (balance_of A (heap s) (xacts e) (NULL_VALUE A))"
    and bal: "is_balance A (balance_of A (heap s) (xacts e) (NULL_VALUE A))"
    and amts: "amounts A (balance_of A (heap s) (xacts e) (NULL_VALUE A)) = a # rest"
    and run: "finalize A s e = (r, s', e')"
  shows "heap s' n = (heap s n)\<lparr>amount := amt_negate A a\<rparr> \<and>
         xacts e' = xacts e @ [brk s..<brk s + length rest] \<and>
         (\<forall>k<length rest. heap s' (brk s + k) =
            xact_new_amount (account (heap s n)) (amt_negate A (rest ! k)) {XACT_GENERATED}) \<and>
         map (\<lambda>p. amount (heap s' p)) (n # [brk s..<brk s + length rest])
           = map (amt_negate A) (a # rest) \<and>
         xacts (snd (snd (finalize ref_arith three_store (entry_of [0, 1, 2] None))))
           = xacts (entry_of [0, 1, 2] None) @ [3] \<and>
         commodity_total USD
           (heap (fst (snd (finalize ref_arith three_store (entry_of [0, 1, 2] None)))))
           (xacts (snd (snd (finalize ref_arith three_store (entry_of [0, 1, 2] None))))) = 0 \<and>
         commodity_total EUR
           (heap (fst (snd (finalize ref_arith three_store (entry_of [0, 1, 2] None)))))
           (xacts (snd (snd (finalize ref_arith three_store (entry_of [0, 1, 2] None))))) = 0"
proof -
  let ?bal = "balance_of A (heap s) (xacts e) (NULL_VALUE A)"
  have acc: "finalize_accumulate A (heap s) (xacts e) (NULL_VALUE A) None = Inr (?bal, Some n)"
    using one by (simp add: accumulate_None)
  have n: "n < brk s" using one wf null_xacts_subset [of A "heap s" "xacts e"] by auto
  obtain r2 s2 e2 where nx: "finalize_null_xact A n ?bal s e = (r2, s2, e2)"
    by (cases "finalize_null_xact A n ?bal s e") auto
  note f2 = finalize_null_xact_balance [OF bal amts n nx]
  obtain r3 s3 where ex: "finalize_exchange A e2 (xacts e2) (NULL_VALUE A) s2 = (r3, s3)"
    by (cases "finalize_exchange A e2 (xacts e2) (NULL_VALUE A) s2") auto
  note f3 = finalize_exchange_frame [OF ex]
  have nx': "finalize_null_xact A n ?bal s e = (Inr (NULL_VALUE A), s2, e2)"
    using nx f2 by simp
  have passes: "finalize_passes A s e = (r3, s3, e2)"
    by (cases r3)
       (simp_all add: finalize_passes_def finalize_balance_def acc valid
          finalize_basket_skip [OF len] nx' ex)
  have fin: "s' = s3 \<and> e' = e2"
    using run passes by (cases r3) (auto simp: finalize_def dest: finalize_check_frame)
  have c_n: "cost (heap s2 n) = None" using f2 nocost by simp
  have c_k: "\<forall>k<length rest. cost (heap s2 (brk s + k)) = None"
    using f2 by (simp add: xact_new_amount_def)
  have h_n: "heap s' n = (heap s n)\<lparr>amount := amt_negate A a\<rparr>"
    using fin f3 c_n f2 by simp
  have h_k: "\<forall>k<length rest. heap s' (brk s + k) =
            xact_new_amount (account (heap s n)) (amt_negate A (rest ! k)) {XACT_GENERATED}"
    using fin f3 c_k f2 by simp
  have m: "map (\<lambda>p. amount (heap s' p)) [brk s..<brk s + length rest] = map (amt_negate A) rest"
  proof (rule nth_equalityI)
    show "length (map (\<lambda>p. amount (heap s' p)) [brk s..<brk s + length rest])
            = length (map (amt_negate A) rest)"
      by simp
  next
    fix i assume "i < length (map (\<lambda>p. amount (heap s' p)) [brk s..<brk s + length rest])"
    then have i: "i < length rest" by simp
    with h_k have "amount (heap s' (brk s + i)) = amt_negate A (rest ! i)"
      by (simp add: xact_new_amount_def)
    with i show "map (\<lambda>p. amount (heap s' p)) [brk s..<brk s + length rest] ! i
                   = map (amt_negate A) rest ! i"
      by simp
  qed
  have x: "xacts e' = xacts e @ [brk s..<brk s + length rest]" using fin f2 by simp
  have "amount (heap s' n) = amt_negate A a" using h_n by simp
  with m have m': "map (\<lambda>p. amount (heap s' p)) (n # [brk s..<brk s + length rest])
           = map (amt_negate A) (a # rest)"
    by simp
  have ex3: "xacts (snd (snd (finalize ref_arith three_store (entry_of [0, 1, 2] None))))
           = xacts (entry_of [0, 1, 2] None) @ [3]"
    using three_store_finalize by (simp add: entry_of_def)
  from h_n x h_k m' ex3 three_store_finalize show ?thesis by blast
qed

theorem finalize_null_multi_witness:
  "null_xacts ref_arith (heap three_store) (xacts (entry_of [0, 1, 2] None)) = [2] \<and>
   amounts ref_arith (balance_of ref_arith (heap three_store) (xacts (entry_of [0, 1, 2] None))
      (NULL_VALUE ref_arith)) = [Amount 5 EUR None, Amount 10 USD None] \<and>
   fst (finalize ref_arith three_store (entry_of [0, 1, 2] None)) = Inr True \<and>
   xacts (snd (snd (finalize ref_arith three_store (entry_of [0, 1, 2] None)))) = [0, 1, 2, 3] \<and>
   heap (fst (snd (finalize ref_arith three_store (entry_of [0, 1, 2] None)))) 2
     = posting ''Equity'' (Amount (- 5) EUR None) \<and>
   heap (fst (snd (finalize ref_arith three_store (entry_of [0, 1, 2] None)))) 3
     = xact_new_amount (Account ''Equity'') (Amount (- 10) USD None) {XACT_GENERATED} \<and>
   commodity_total USD (heap (fst (snd (finalize ref_arith three_store (entry_of [0, 1, 2] None)))))
     (xacts (snd (snd (finalize ref_arith three_store (entry_of [0, 1, 2] None))))) = 0 \<and>
   commodity_total EUR (heap (fst (snd (finalize ref_arith three_store (entry_of [0, 1, 2] None)))))
     (xacts (snd (snd (finalize ref_arith three_store (entry_of [0, 1, 2] None))))) = 0"
proof -
  let ?e = "entry_of [0, 1, 2] None"
  let ?F = "finalize ref_arith three_store ?e"
  let ?bal = "balance_of ref_arith (heap three_store) (xacts ?e) (NULL_VALUE ref_arith)"
  have one: "null_xacts ref_arith (heap three_store) (xacts ?e) = [2]"
    by (simp add: null_xacts_def three_store_def ref_simps cost_or_amount_def)
  have b: "?bal = Balance_Value [Amount 5 EUR None, Amount 10 USD None]"
    by (simp add: balance_of_def add_to_balance_def three_store_def ref_simps
        cost_or_amount_def)
  have amts: "amounts ref_arith ?bal = Amount 5 EUR None # [Amount 10 USD None]"
    and valid: "val_valid ref_arith ?bal" and isb: "is_balance ref_arith ?bal"
    unfolding b by (simp_all add: ref_arith_def)
  have h: "cost (heap three_store 2) = None" "length (xacts ?e) \<noteq> 1"
      "\<forall>p\<in>set (xacts ?e). p < brk three_store" "brk three_store = 3"
      "heap three_store 0 = posting ''Assets'' (Amount 10 USD None)"
      "heap three_store 1 = posting ''Cash'' (Amount 5 EUR None)"
      "heap three_store 2 = posting ''Equity'' Null_Amount"
    by (simp_all add: three_store_def ref_store_def store_of_def entry_of_def posting_def
        xact_new_amount_def)
  have p: "?F = (fst ?F, fst (snd ?F), snd (snd ?F))" by simp
  note t = finalize_null_multi [OF one h(1) h(2) h(3) valid isb amts p]
  have ok: "fst ?F = Inr True"
    by (simp add: finalize_defs three_store_def ref_simps new_ptr_eq heap_poke brk_poke add_xact_def)
  have x: "xacts (snd (snd ?F)) = [0, 1, 2, 3]"
    using t h by (simp add: entry_of_def)
  have h2: "heap (fst (snd ?F)) 2 = posting ''Equity'' (Amount (- 5) EUR None)"
    using t h by (simp add: ref_arith_def posting_def xact_new_amount_def)
  have h3: "heap (fst (snd ?F)) 3
     = xact_new_amount (Account ''Equity'') (Amount (- 10) USD None) {XACT_GENERATED}"
    using t h by (simp add: ref_arith_def posting_def xact_new_amount_def)
  have tot: "commodity_total USD (heap (fst (snd ?F))) (xacts (snd (snd ?F))) = 0"
      "commodity_total EUR (heap (fst (snd ?F))) (xacts (snd (snd ?F))) = 0"
    by (simp_all add: commodity_total_def finalize_defs three_store_def ref_simps new_ptr_eq
        heap_poke brk_poke add_xact_def)
  from one amts ok x h2 h3 tot show ?thesis by simp
qed

text \<open>
  The claim as first stated counts two extra generated postings for \<open>+10 USD\<close>,
  \<open>+5 EUR\<close> and a null posting.  The balance has two amounts; the null posting takes
  the first, so a single posting is generated.
\<close>

theorem generated_count_counterexample:
  "fst (finalize ref_arith three_store (entry_of [0, 1, 2] None)) = Inr True \<and>
   length (xacts (snd (snd (finalize ref_arith three_store (entry_of [0, 1, 2] None)))))
     - length (xacts (entry_of [0, 1, 2] None)) = 1 \<and>
   filter (\<lambda>p. XACT_GENERATED \<in>
              flags (heap (fst (snd (finalize ref_arith three_store (entry_of [0, 1, 2] None)))) p))
     (xacts (snd (snd (finalize ref_arith three_store (entry_of [0, 1, 2] None))))) = [3]"
  by (simp add: finalize_defs three_store_def ref_simps new_ptr_eq heap_poke brk_poke add_xact_def)

subsection \<open>The per-unit cost\<close>

text \<open>
  The loop over the postings, for a list without repetition, does what the spec says
  of every posting that takes part.
\<close>

lemma inferred_balance_cong:
  "\<forall>p\<in>set xs. h' p = h p \<Longrightarrow>
     inferred_balance A puc comm h' xs b = inferred_balance A puc comm h xs b"
proof -
  assume eq: "\<forall>p\<in>set xs. h' p = h p"
  have f: "filter (\<lambda>p. takes_cost A comm (h' p)) xs = filter (\<lambda>p. takes_cost A comm (h p)) xs"
    using eq by (intro filter_cong) auto
  show ?thesis unfolding inferred_balance_def f
    using eq by (intro foldl_cong) auto
qed

lemma finalize_cost_loop_spec:
  "distinct xs \<Longrightarrow>
     finalize_cost_loop A puc comm xs b s =
       (inferred_balance A puc comm (heap s) xs b,
        s\<lparr>heap := (\<lambda>p. if p \<in> set xs then infer_cost A puc comm (heap s p) else heap s p)\<rparr>)"
proof (induction xs arbitrary: b s)
  case Nil
  then show ?case by (simp add: inferred_balance_def)
next
  case (Cons x xs)
  then have d: "distinct xs" and nx: "x \<notin> set xs" by simp_all
  show ?case
  proof (cases "takes_cost A comm (heap s x)")
    case False
    then have c: "cost (heap s x) \<noteq> None \<or> \<not> must_balance A (heap s x) \<or>
                  commodity A (amount (heap s x)) = comm"
      by (auto simp: takes_cost_def)
    have "inferred_balance A puc comm (heap s) (x # xs) b = inferred_balance A puc comm (heap s) xs b"
      using False by (simp add: inferred_balance_def)
    moreover have "(\<lambda>p. if p \<in> set (x # xs) then infer_cost A puc comm (heap s p) else heap s p)
                 = (\<lambda>p. if p \<in> set xs then infer_cost A puc comm (heap s p) else heap s p)"
      using False by (auto simp: fun_eq_iff infer_cost_def)
    moreover have "finalize_cost_loop A puc comm (x # xs) b s = finalize_cost_loop A puc comm xs b s"
      using c by (auto simp: Let_def)
    ultimately show ?thesis using Cons.IH [OF d, of b s] by simp
  next
    case True
    then have c: "\<not> (cost (heap s x) \<noteq> None \<or> \<not> must_balance A (heap s x) \<or>
                  commodity A (amount (heap s x)) = comm)"
      by (auto simp: takes_cost_def)
    let ?amt = "amount (heap s x)"
    let ?c = "amt_times A puc ?amt"
    let ?s1 = "poke x (\<lambda>y. y\<lparr>cost := Some ?c\<rparr>) s"
    let ?b2 = "val_plus A (val_minus A b ?amt) ?c"
    have step: "finalize_cost_loop A puc comm (x # xs) b s = finalize_cost_loop A puc comm xs ?b2 ?s1"
      using c by (simp add: Let_def heap_poke)
    have same: "\<forall>p\<in>set xs. heap ?s1 p = heap s p" using nx by (auto simp: heap_poke)
    have b: "inferred_balance A puc comm (heap ?s1) xs ?b2
               = inferred_balance A puc comm (heap s) (x # xs) b"
      using True inferred_balance_cong [OF same, of A puc comm ?b2]
      by (simp add: inferred_balance_def)
    have h: "(\<lambda>p. if p \<in> set xs then infer_cost A puc comm (heap ?s1 p) else heap ?s1 p)
           = (\<lambda>p. if p \<in> set (x # xs) then infer_cost A puc comm (heap s p) else heap s p)"
      using True nx by (auto simp: fun_eq_iff heap_poke infer_cost_def)
    have "finalize_cost_loop A puc comm xs ?b2 ?s1 =
            (inferred_balance A puc comm (heap ?s1) xs ?b2,
             ?s1\<lparr>heap := (\<lambda>p. if p \<in> set xs then infer_cost A puc comm (heap ?s1 p) else heap ?s1 p)\<rparr>)"
      by (rule Cons.IH [OF d])
    also have "\<dots> = (inferred_balance A puc comm (heap s) (x # xs) b,
             s\<lparr>heap := (\<lambda>p. if p \<in> set (x # xs) then infer_cost A puc comm (heap s p) else heap s p)\<rparr>)"
      unfolding b h by (simp add: poke_def)
    finally show ?thesis using step by simp
  qed
qed


lemma finalize_cost_loop_cost:
  "cost (infer_cost A puc comm x) =
     (if takes_cost A comm x then Some (amt_times A puc (amount x)) else cost x)"
  by (simp add: infer_cost_def)

text \<open>
  C4.  Take an entry with no null posting, not subject to the default account, whose
  postings are listed once each and whose accumulated balance \<open>bal\<close> holds exactly the
  two amounts \<open>x\<close> and \<open>y\<close>, in canonical order.  If \<open>y\<close> is exactly zero the
  inference step returns the balance, the store and the entry as they are, and
  \<open>finalize\<close> changes no cost.  Otherwise, with \<open>per_unit_cost = |x / y|\<close>, the step
  gives every posting that must balance, has no cost and whose amount is in another
  commodity than \<open>x\<close> the cost \<open>per_unit_cost * amount\<close>, and for each of them in turn
  subtracts the amount from the balance and adds the cost; these are the costs the
  postings have when \<open>finalize\<close> ends.
\<close>

theorem finalize_infers_cost:
  assumes bal: "bal = balance_of A (heap s) (xacts e) (NULL_VALUE A)"
    and puc: "puc = amt_abs A (amt_divide A x y)"
    and nonull: "null_xacts A (heap s) (xacts e) = []"
    and len: "length (xacts e) \<noteq> 1"
    and dist: "distinct (xacts e)"
    and valid: "val_valid A bal"
    and isb: "is_balance A bal"
    and amts: "amounts A bal = [x, y]"
    and run: "finalize A s e = (r, s', e')"
  shows "(amt_is_realzero A y \<longrightarrow>
            finalize_balance A None bal s e = (Inr bal, s, e) \<and>
            (\<forall>p. cost (heap s' p) = cost (heap s p))) \<and>
         (\<not> amt_is_realzero A y \<longrightarrow>
            finalize_balance A None bal s e =
              (Inr (inferred_balance A puc (commodity A x) (heap s) (xacts e) bal),
               s\<lparr>heap := (\<lambda>p. if p \<in> set (xacts e)
                               then infer_cost A puc (commodity A x) (heap s p) else heap s p)\<rparr>,
               e) \<and>
            (\<forall>p. cost (heap s' p) =
                   (if p \<in> set (xacts e) \<and> takes_cost A (commodity A x) (heap s p)
                    then Some (amt_times A puc (amount (heap s p))) else cost (heap s p)))) \<and>
         e' = e"
proof -
  have acc: "finalize_accumulate A (heap s) (xacts e) (NULL_VALUE A) None = Inr (bal, None)"
    using nonull bal by (simp add: accumulate_None)
  obtain r2 s2 e2 where ph: "finalize_balance A None bal s e = (r2, s2, e2)"
    by (cases "finalize_balance A None bal s e") auto
  have ph_cases:
    "(amt_is_realzero A y \<longrightarrow> (r2, s2, e2) = (Inr bal, s, e)) \<and>
     (\<not> amt_is_realzero A y \<longrightarrow> (r2, s2, e2) =
        (Inr (inferred_balance A puc (commodity A x) (heap s) (xacts e) bal),
         s\<lparr>heap := (\<lambda>p. if p \<in> set (xacts e)
                         then infer_cost A puc (commodity A x) (heap s p) else heap s p)\<rparr>,
         e))"
    using ph isb amts puc
    by (auto simp: finalize_balance_def finalize_per_unit_cost_def Let_def
        finalize_cost_loop_spec [OF dist])
  then obtain b2 where r2: "r2 = Inr b2" and e2: "e2 = e" by (cases "amt_is_realzero A y") auto
  obtain r3 s3 where ex: "finalize_exchange A e (xacts e) b2 s2 = (r3, s3)"
    by (cases "finalize_exchange A e (xacts e) b2 s2") auto
  note f3 = finalize_exchange_frame [OF ex]
  have passes: "finalize_passes A s e = (r3, s3, e)"
    using ph r2 e2
    by (cases r3)
       (simp_all add: finalize_passes_def acc valid finalize_basket_skip [OF len] ex)
  have fin: "s' = s3 \<and> e' = e"
    using run passes by (cases r3) (auto simp: finalize_def dest: finalize_check_frame)
  have costs: "\<forall>p. cost (heap s' p) = cost (heap s2 p)"
  proof
    fix p
    from f3 have "heap s3 p = (heap s2 p)\<lparr>amount := amount (heap s3 p)\<rparr>" by blast
    then have "cost (heap s3 p) = cost ((heap s2 p)\<lparr>amount := amount (heap s3 p)\<rparr>)" by simp
    with fin show "cost (heap s' p) = cost (heap s2 p)" by simp
  qed
  show ?thesis
  proof (cases "amt_is_realzero A y")
    case True
    with ph_cases ph costs fin show ?thesis by simp
  next
    case False
    with ph_cases have s2: "s2 = s\<lparr>heap := (\<lambda>p. if p \<in> set (xacts e)
                         then infer_cost A puc (commodity A x) (heap s p) else heap s p)\<rparr>"
      by simp
    have "\<forall>p. cost (heap s' p) =
                   (if p \<in> set (xacts e) \<and> takes_cost A (commodity A x) (heap s p)
                    then Some (amt_times A puc (amount (heap s p))) else cost (heap s p))"
      using costs by (simp add: s2 finalize_cost_loop_cost)
    with False ph_cases ph fin show ?thesis by simp
  qed
qed

theorem finalize_infers_cost_witness:
  "balance_of ref_arith (heap trade_store) (xacts (entry_of [0, 1] None)) (NULL_VALUE ref_arith)
     = Balance_Value [Amount 10 EUR None, Amount (- 2) USD None] \<and>
   amt_abs ref_arith (amt_divide ref_arith (Amount 10 EUR None) (Amount (- 2) USD None))
     = Amount 5 EUR None \<and>
   fst (finalize ref_arith trade_store (entry_of [0, 1] None)) = Inr True \<and>
   cost (heap (fst (snd (finalize ref_arith trade_store (entry_of [0, 1] None)))) 0) = None \<and>
   cost (heap (fst (snd (finalize ref_arith trade_store (entry_of [0, 1] None)))) 1)
     = Some (Amount (- 10) EUR None) \<and>
   fst (finalize_balance ref_arith None (Balance_Value [Amount 10 EUR None, Amount (- 2) USD None])
          trade_store (entry_of [0, 1] None))
     = Inr (Balance_Value [Amount 0 EUR None, Amount 0 USD None])"
proof -
  let ?e = "entry_of [0, 1] None"
  let ?F = "finalize ref_arith trade_store ?e"
  let ?bal = "Balance_Value [Amount 10 EUR None, Amount (- 2) USD None]"
  have b: "?bal = balance_of ref_arith (heap trade_store) (xacts ?e) (NULL_VALUE ref_arith)"
    by (simp add: balance_of_def add_to_balance_def trade_store_def ref_simps
        cost_or_amount_def)
  have puc: "Amount 5 EUR None
      = amt_abs ref_arith (amt_divide ref_arith (Amount 10 EUR None) (Amount (- 2) USD None))"
    by (simp add: ref_simps)
  have h: "null_xacts ref_arith (heap trade_store) (xacts ?e) = []" "length (xacts ?e) \<noteq> 1"
      "distinct (xacts ?e)" "val_valid ref_arith ?bal" "is_balance ref_arith ?bal"
      "amounts ref_arith ?bal = [Amount 10 EUR None, Amount (- 2) USD None]"
    by (simp_all add: null_xacts_def trade_store_def ref_simps cost_or_amount_def)
  have p: "?F = (fst ?F, fst (snd ?F), snd (snd ?F))" by simp
  note t = finalize_infers_cost [OF b puc h p]
  have nz: "\<not> amt_is_realzero ref_arith (Amount (- 2) USD None)" by (simp add: ref_arith_def)
  have tc: "\<not> takes_cost ref_arith (commodity ref_arith (Amount 10 EUR None)) (heap trade_store 0)"
      "takes_cost ref_arith (commodity ref_arith (Amount 10 EUR None)) (heap trade_store 1)"
      "amt_times ref_arith (Amount 5 EUR None) (amount (heap trade_store 1)) = Amount (- 10) EUR None"
      "cost (heap trade_store 0) = None" "xacts ?e = [0, 1]"
    by (simp_all add: takes_cost_def trade_store_def ref_simps)
  have c0: "cost (heap (fst (snd ?F)) 0) = None"
    and c1: "cost (heap (fst (snd ?F)) 1) = Some (Amount (- 10) EUR None)"
    using t nz tc by simp_all
  have ib: "inferred_balance ref_arith (Amount 5 EUR None) (commodity ref_arith (Amount 10 EUR None))
              (heap trade_store) (xacts ?e) ?bal
            = Balance_Value [Amount 0 EUR None, Amount 0 USD None]"
    by (simp add: inferred_balance_def takes_cost_def trade_store_def ref_simps)
  have ph: "fst (finalize_balance ref_arith None ?bal trade_store ?e)
              = Inr (Balance_Value [Amount 0 EUR None, Amount 0 USD None])"
    using t nz ib by simp
  have ok: "fst ?F = Inr True"
    by (simp add: finalize_defs trade_store_def ref_simps heap_poke brk_poke Let_def)
  from b puc ok c0 c1 ph show ?thesis by simp
qed

subsection \<open>A single posting and the default account\<close>

lemma finalize_basket_single:
  assumes "xacts e = [p]" "journal e = Some j" "basket j = Some acct" "p < brk s"
  shows "finalize_basket A nx s e =
           (Some (brk s),
            s\<lparr>heap := (heap s)(brk s := (xact_new A acct {XACT_GENERATED})\<lparr>state := state (heap s p)\<rparr>),
              brk := Suc (brk s)\<rparr>,
            e\<lparr>xacts := [p, brk s]\<rparr>)"
  using assms by (simp add: finalize_basket_def new_ptr_eq poke_def add_xact_def)

text \<open>The reference arithmetic obeys these laws.\<close>

lemma ref_arith_laws: "default_account_laws ref_arith"
proof -
  have "\<And>a. \<not> ref_is_null a \<Longrightarrow>
          \<not> ref_is_null (ref_negate a) \<and>
          ref_val_is_zero (ref_val_plus (Amount_Value a) (ref_negate a))"
  proof -
    fix a assume "\<not> ref_is_null a"
    then obtain q c p where "a = Amount q c p" by (cases a) auto
    then show "\<not> ref_is_null (ref_negate a) \<and>
          ref_val_is_zero (ref_val_plus (Amount_Value a) (ref_negate a))"
      by simp
  qed
  then show ?thesis by (simp add: default_account_laws_def ref_arith_def)
qed

text \<open>
  C7.  Take an entry with exactly one posting \<open>p\<close>, whose journal has the default
  account \<open>acct\<close>.  The default-account step allocates a second posting in \<open>acct\<close>
  with the unset amount, flagged generated, with the state of \<open>p\<close>, appends it and
  makes it the null posting.  When \<open>finalize\<close> succeeds (over a library that obeys the laws
  stated with \<open>default_account_laws\<close>), the entry has exactly the two postings; the
  second is that posting, now holding the negation of the cost, or else the amount, of
  \<open>p\<close> and flagged generated and calculated; and the entry balances.
\<close>

theorem finalize_single_posting:
  assumes laws: "default_account_laws A"
    and one: "xacts e = [p]" and j: "journal e = Some j" "basket j = Some acct"
    and wf: "p < brk s"
    and run: "finalize A s e = (Inr r, s', e')"
  shows "fst (finalize_basket A nx s e) = Some (brk s) \<and>
         heap (fst (snd (finalize_basket A nx s e))) (brk s)
           = (xact_new A acct {XACT_GENERATED})\<lparr>state := state (heap s p)\<rparr> \<and>
         xacts (snd (snd (finalize_basket A nx s e))) = [p, brk s] \<and>
         xacts e' = [p, brk s] \<and>
         heap s' (brk s) =
           (xact_new A acct {XACT_GENERATED})
             \<lparr>state := state (heap s p),
              amount := amt_negate A (cost_or_amount (heap s p)),
              flags := {XACT_CALCULATED, XACT_GENERATED}\<rparr> \<and>
         entry_balances A (heap s') (xacts e')"
proof -
  let ?bal = "balance_of A (heap s) [p] (NULL_VALUE A)"
  let ?P = "cost_or_amount (heap s p)"
  let ?q = "brk s"
  let ?new = "(xact_new A acct {XACT_GENERATED})\<lparr>state := state (heap s p)\<rparr>"
  let ?s1 = "s\<lparr>heap := (heap s)(?q := ?new), brk := Suc ?q\<rparr>"
  let ?e1 = "e\<lparr>xacts := [p, ?q]\<rparr>"
  note bk = finalize_basket_single [OF one j wf, of A]
  have L1: "val_is_null A (NULL_VALUE A)" and L2: "\<not> is_balance A (NULL_VALUE A)"
    and L3: "as_amount A (NULL_VALUE A) = None"
    and L4: "\<And>a. \<not> is_balance A (val_of_amount A a)" "\<And>a. \<not> val_is_null A (val_of_amount A a)"
      "\<And>a. as_amount A (val_of_amount A a) = Some a"
    and L5: "\<And>a. \<not> amt_is_null A a \<Longrightarrow> \<not> amt_is_null A (amt_negate A a)"
      "\<And>a. \<not> amt_is_null A a \<Longrightarrow>
         val_is_zero A (val_round A (val_plus A (val_of_amount A a) (amt_negate A a)))"
    and L6: "\<And>x a. must_balance A (x\<lparr>amount := a\<rparr>) = must_balance A x"
      "\<And>x. flags x = {XACT_CALCULATED, XACT_GENERATED} \<Longrightarrow> must_balance A x"
    using laws by (simp_all add: default_account_laws_def)
  \<comment> \<open>the passes succeed\<close>
  obtain b3 where passes: "finalize_passes A s e = (Inr b3, s', e')"
    using run
    by (cases "finalize_passes A s e")
       (auto simp: finalize_def split: sum.splits dest: finalize_check_frame)
  obtain bal nx0 where acc: "finalize_accumulate A (heap s) (xacts e) (NULL_VALUE A) None = Inr (bal, nx0)"
    and valid: "val_valid A bal"
    using passes by (auto simp: finalize_passes_def split: sum.splits if_splits)
  have bal: "bal = ?bal" using acc one
    by (auto simp: accumulate_None split: list.splits)
  obtain r2 s2 e2 where nxr: "finalize_null_xact A ?q bal ?s1 ?e1 = (r2, s2, e2)"
    by (cases "finalize_null_xact A ?q bal ?s1 ?e1") auto
  obtain b2 where r2: "r2 = Inr b2"
    using passes acc valid bk nxr
    by (cases r2) (auto simp: finalize_passes_def finalize_balance_def)
  obtain r3 s3 where ex: "finalize_exchange A e2 (xacts e2) b2 s2 = (r3, s3)"
    by (cases "finalize_exchange A e2 (xacts e2) b2 s2") auto
  have p3: "r3 = Inr b3 \<and> s' = s3 \<and> e' = e2"
    using passes acc valid bk nxr r2 ex
    by (cases r3) (auto simp: finalize_passes_def finalize_balance_def)
  \<comment> \<open>the first posting must balance and is not null\<close>
  have first: "must_balance A (heap s p) \<and> \<not> amt_is_null A ?P"
  proof (rule ccontr)
    assume "\<not> (must_balance A (heap s p) \<and> \<not> amt_is_null A ?P)"
    then have "?bal = NULL_VALUE A" by (auto simp: balance_of_def)
    with nxr r2 bal L2 L3 show False by (simp add: finalize_null_xact_def)
  qed
  then have balv: "bal = val_of_amount A ?P"
    using bal L1 by (simp add: balance_of_def add_to_balance_def)
  have s2: "s2 = poke ?q (\<lambda>x. x\<lparr>amount := amt_negate A ?P,
                               flags := insert XACT_CALCULATED (flags x)\<rparr>) ?s1"
    and e2: "e2 = ?e1"
    using nxr balv L4 by (simp_all add: finalize_null_xact_def)
  have neq: "p \<noteq> ?q" using wf by simp
  have h2q: "heap s2 ?q = ?new\<lparr>amount := amt_negate A ?P, flags := {XACT_CALCULATED, XACT_GENERATED}\<rparr>"
    by (simp add: s2 heap_poke xact_new_def)
  have h2p: "heap s2 p = heap s p" using neq by (simp add: s2 heap_poke)
  note f3 = finalize_exchange_frame [OF ex]
  have cq: "cost (heap s2 ?q) = None" by (simp add: h2q xact_new_def)
  have h3q: "heap s' ?q = heap s2 ?q" using f3 cq p3 by simp
  have h3p: "heap s' p = (heap s p)\<lparr>amount := amount (heap s' p)\<rparr>"
    using f3 p3 h2p by metis
  have np: "cost (heap s p) = None \<longrightarrow> heap s' p = heap s p"
    using f3 p3 h2p by metis
  have coa: "cost_or_amount (heap s' p) = ?P"
  proof (cases "cost (heap s p)")
    case None
    with np show ?thesis by simp
  next
    case (Some c)
    have "cost (heap s' p) = cost ((heap s p)\<lparr>amount := amount (heap s' p)\<rparr>)"
      using h3p by simp
    with Some show ?thesis by (simp add: cost_or_amount_def)
  qed
  have mb: "must_balance A (heap s' p)"
  proof -
    have "must_balance A (heap s' p) = must_balance A ((heap s p)\<lparr>amount := amount (heap s' p)\<rparr>)"
      using h3p by simp
    with first L6 show ?thesis by simp
  qed
  have q: "heap s' ?q = ?new\<lparr>amount := amt_negate A ?P, flags := {XACT_CALCULATED, XACT_GENERATED}\<rparr>"
    using h3q h2q by simp
  have mbq: "must_balance A (heap s' ?q)" and coaq: "cost_or_amount (heap s' ?q) = amt_negate A ?P"
    by (simp_all add: q L6 cost_or_amount_def xact_new_def)
  have nnq: "\<not> amt_is_null A (amt_negate A ?P)" using first L5 by simp
  have nulls: "null_xacts A (heap s') [p, ?q] = []"
    using first coa coaq nnq by (simp add: null_xacts_def)
  have sum: "balance_of A (heap s') [p, ?q] (NULL_VALUE A)
               = val_plus A (val_of_amount A ?P) (amt_negate A ?P)"
    using first coa coaq nnq mb mbq L1 L4 by (simp add: balance_of_def add_to_balance_def)
  have balances: "entry_balances A (heap s') [p, ?q]"
    using nulls sum first L5 by (simp add: entry_balances_def)
  have x: "xacts e' = [p, ?q]" using p3 e2 by simp
  have q': "heap s' (brk s) =
           (xact_new A acct {XACT_GENERATED})
             \<lparr>state := state (heap s p),
              amount := amt_negate A (cost_or_amount (heap s p)),
              flags := {XACT_CALCULATED, XACT_GENERATED}\<rparr>"
    using q by (simp add: xact_new_def)
  show ?thesis using bk x q' balances by simp
qed


theorem finalize_single_posting_witness:
  "default_account_laws ref_arith \<and>
   fst (finalize ref_arith single_store (entry_of [0] (Some basket_journal))) = Inr True \<and>
   xacts (snd (snd (finalize ref_arith single_store (entry_of [0] (Some basket_journal))))) = [0, 1] \<and>
   heap (fst (snd (finalize ref_arith single_store (entry_of [0] (Some basket_journal))))) 1
     = (posting ''Equity'' (Amount (- 10) USD None))
         \<lparr>state := CLEARED, flags := {XACT_CALCULATED, XACT_GENERATED}\<rparr> \<and>
   entry_balances ref_arith
     (heap (fst (snd (finalize ref_arith single_store (entry_of [0] (Some basket_journal))))))
     (xacts (snd (snd (finalize ref_arith single_store (entry_of [0] (Some basket_journal))))))"
proof -
  let ?e = "entry_of [0] (Some basket_journal)"
  let ?F = "finalize ref_arith single_store ?e"
  have ok: "fst ?F = Inr True"
    by (simp add: finalize_defs single_store_def basket_journal_def ref_simps new_ptr_eq
        heap_poke brk_poke add_xact_def)
  have run: "?F = (Inr True, fst (snd ?F), snd (snd ?F))"
    using ok by (simp add: prod_eq_iff)
  have h: "xacts ?e = [0]" "journal ?e = Some basket_journal"
      "basket basket_journal = Some (Account ''Equity'')" "0 < brk single_store"
      "brk single_store = 1"
      "heap single_store 0 = (posting ''Assets'' (Amount 10 USD None))\<lparr>state := CLEARED\<rparr>"
    by (simp_all add: single_store_def basket_journal_def ref_store_def store_of_def entry_of_def)
  note t = finalize_single_posting [OF ref_arith_laws h(1) h(2) h(3) h(4) run]
  have x: "xacts (snd (snd ?F)) = [0, 1]" using t h(5) by simp
  have q: "heap (fst (snd ?F)) 1
     = (posting ''Equity'' (Amount (- 10) USD None))
         \<lparr>state := CLEARED, flags := {XACT_CALCULATED, XACT_GENERATED}\<rparr>"
    using t h(5) h(6)
    by (simp add: xact_new_def posting_def xact_new_amount_def cost_or_amount_def ref_arith_def)
  have eb: "entry_balances ref_arith (heap (fst (snd ?F))) (xacts (snd (snd ?F)))"
    using t by blast
  from ref_arith_laws ok x q eb show ?thesis by blast
qed

end
